theory Spec2Isabelle
  imports Complex_Main "HOL-Library.Word"
begin

unbundle bit_operations_syntax

section \<open>Go values and their renderings by \<^verbatim>\<open>fmt\<close>\<close>

text \<open>
  The program formats every column of a log row with \<^verbatim>\<open>fmt.Sprintf\<close>. The verbs it
  uses are \<^verbatim>\<open>%d\<close> (decimal), \<^verbatim>\<open>%f\<close>, \<^verbatim>\<open>%.6f\<close>, \<^verbatim>\<open>%.1f\<close> (fixed-point
  with a precision), \<^verbatim>\<open>%t\<close> (a bool) and \<^verbatim>\<open>%06X\<close> (upper-case hexadecimal,
  zero-padded to six digits). They are modelled as functions from the value to a string.
\<close>

definition digit_char :: "nat \<Rightarrow> char" where
  "digit_char d = ''0123456789ABCDEF'' ! (d mod 16)"

fun dec_nat :: "nat \<Rightarrow> string" where
  "dec_nat n = (if n < 10 then [digit_char n] else dec_nat (n div 10) @ [digit_char (n mod 10)])"

fun hex_nat :: "nat \<Rightarrow> string" where
  "hex_nat n = (if n < 16 then [digit_char n] else hex_nat (n div 16) @ [digit_char (n mod 16)])"

declare dec_nat.simps [simp del]
declare hex_nat.simps [simp del]

definition dec_int :: "int \<Rightarrow> string" where
  "dec_int i = (if i < 0 then CHR ''-'' # dec_nat (nat (- i)) else dec_nat (nat i))"

definition zero_pad :: "nat \<Rightarrow> string \<Rightarrow> string" where
  "zero_pad w s = replicate (w - length s) (CHR ''0'') @ s"

definition fmt_bool :: "bool \<Rightarrow> string" where
  "fmt_bool b = (if b then ''true'' else ''false'')"

text \<open>
  A \<^verbatim>\<open>float64\<close> is a NaN, an infinity with its sign, or a finite value. A finite value is
  kept exactly, as a sign and a dyadic fraction: \<open>Finite neg n k\<close> stands for
  \<open>\<plusminus> n / 2 ^ k\<close>; every finite IEEE double, negative zero included (\<open>Finite True 0 0\<close>),
  has this form, and \<open>float_val\<close> is the real number it denotes. The program only stores,
  copies, prints and converts its floats; it does no arithmetic on them, so no rounding of
  results has to be modelled.
\<close>

datatype float64 = Finite bool nat nat | Inf bool | NaN

definition float_val :: "float64 \<Rightarrow> real option" where
  "float_val x = (case x of
      Finite neg n k \<Rightarrow> Some (if neg then - (real n / 2 ^ k) else real n / 2 ^ k)
    | Inf neg \<Rightarrow> None
    | NaN \<Rightarrow> None)"

text \<open>
  \<^verbatim>\<open>%.<prec>f\<close>: the exact value, rounded to \<open>prec\<close> decimals with ties to even
  (\<^verbatim>\<open>strconv\<close> rounds the exact decimal expansion), the sign printed whenever the sign
  bit is set. \<^verbatim>\<open>%f\<close> is \<^verbatim>\<open>%.6f\<close>.
\<close>

definition fmt_float :: "nat \<Rightarrow> float64 \<Rightarrow> string" where
  "fmt_float prec x = (case x of
      NaN \<Rightarrow> ''NaN''
    | Inf neg \<Rightarrow> (if neg then ''-Inf'' else ''+Inf'')
    | Finite neg n k \<Rightarrow>
        (let scaled = n * 10 ^ prec;
             q = scaled div 2 ^ k;
             r = scaled mod 2 ^ k;
             m = (if 2 ^ k < 2 * r \<or> (2 * r = 2 ^ k \<and> odd q) then q + 1 else q)
         in (if neg then ''-'' else '''') @ dec_nat (m div 10 ^ prec) @
            (if prec = 0 then '''' else CHR ''.'' # zero_pad prec (dec_nat (m mod 10 ^ prec)))))"

text \<open>
  The conversion \<^verbatim>\<open>int(f)\<close> of a \<^verbatim>\<open>float64\<close>: the fraction is discarded. Where the
  result does not fit the platform's \<^verbatim>\<open>int\<close> (or \<open>f\<close> is a NaN or an infinity) the
  language leaves the value to the implementation; the platform record carries the width of
  \<^verbatim>\<open>int\<close> and that choice.
\<close>

record platform =
  int_bits :: nat
  float_to_int_oob :: "float64 \<Rightarrow> int"

definition int_of_float64 :: "platform \<Rightarrow> float64 \<Rightarrow> int" where
  "int_of_float64 p x = (case x of
      Finite neg n k \<Rightarrow>
        (let t = int (n div 2 ^ k);
             v = (if neg then - t else t)
         in if - (2 ^ (int_bits p - 1)) \<le> v \<and> v < 2 ^ (int_bits p - 1) then v
            else float_to_int_oob p x)
    | Inf neg \<Rightarrow> float_to_int_oob p x
    | NaN \<Rightarrow> float_to_int_oob p x)"

section \<open>CapabilityEncoder: \<^verbatim>\<open>deviceTypeLegend\<close> and \<^verbatim>\<open>buildCapabilities\<close>\<close>

text \<open>The \<^verbatim>\<open>switch\<close> of \<^verbatim>\<open>deviceTypeLegend\<close>, case by case in the order of the source.\<close>

definition deviceTypeLegend :: "32 word \<Rightarrow> string" where
  "deviceTypeLegend deviceClass = (
      if deviceClass = 0x0000 then ''Misc''
      else if deviceClass = 0x0100 then ''Computer''
      else if deviceClass = 0x0104 then ''Desktop''
      else if deviceClass = 0x0108 then ''Server''
      else if deviceClass = 0x010C then ''Laptop''
      else if deviceClass = 0x0110 then ''PDA''
      else if deviceClass = 0x0114 then ''Palm''
      else if deviceClass = 0x0118 then ''Wearable Computer''
      else if deviceClass = 0x0200 then ''Phone''
      else if deviceClass = 0x0204 then ''Cellphone''
      else if deviceClass = 0x0208 then ''Cordless Phone''
      else if deviceClass = 0x020C then ''Smartphone''
      else if deviceClass = 0x0210 then ''Modem/GW''
      else if deviceClass = 0x0214 then ''ISDN''
      else if deviceClass = 0x0400 then ''A/V''
      else if deviceClass = 0x0404 then ''Headset''
      else if deviceClass = 0x0408 then ''Handsfree''
      else if deviceClass = 0x0410 then ''Mic''
      else if deviceClass = 0x0414 then ''Speaker''
      else if deviceClass = 0x0418 then ''Headphones''
      else if deviceClass = 0x041C then ''Portable Audio''
      else if deviceClass = 0x0420 then ''Car Audio''
      else if deviceClass = 0x0428 then ''HiFi''
      else if deviceClass = 0x0430 then ''Monitor''
      else if deviceClass = 0x0434 then ''Settop''
      else if deviceClass = 0x0438 then ''Camera''
      else if deviceClass = 0x043C then ''VCR''
      else if deviceClass = 0x0440 then ''Videoconf''
      else if deviceClass = 0x0448 then ''AV Toy''
      else if deviceClass = 0x044C then ''Display/Speaker''
      else if deviceClass = 0x0456 then ''Camcorder''
      else if deviceClass = 0x0500 then ''Keyboard !p''
      else if deviceClass = 0x0540 then ''Keyboard''
      else if deviceClass = 0x0580 then ''Pointer''
      else if deviceClass = 0x05C0 then ''Keyboard+p''
      else if deviceClass = 0x0700 then ''Wearable''
      else if deviceClass = 0x0704 then ''Watch''
      else if deviceClass = 0x0708 then ''Jacket''
      else if deviceClass = 0x070C then ''Pager''
      else if deviceClass = 0x0710 then ''Helmet''
      else if deviceClass = 0x0714 then ''Glasses''
      else if deviceClass = 0x0800 then ''Toy''
      else if deviceClass = 0x0804 then ''Robot''
      else if deviceClass = 0x0808 then ''Vehicle''
      else if deviceClass = 0x080C then ''Doll''
      else if deviceClass = 0x0814 then ''Game''
      else if deviceClass = 0x0820 then ''Controller''
      else if deviceClass = 0x0900 then ''Health''
      else if deviceClass = 0x0904 then ''Blood Pressure''
      else if deviceClass = 0x0908 then ''Thermometer''
      else if deviceClass = 0x090C then ''Scale''
      else if deviceClass = 0x0910 then ''Glucose''
      else if deviceClass = 0x0914 then ''PulseOxy''
      else if deviceClass = 0x0918 then ''Pulse''
      else if deviceClass = 0x091C then ''Health Display''
      else if deviceClass = 0x1F00 then ''Uncategorized''
      else ''Misc'')"

definition buildCapabilities :: "32 word \<Rightarrow> string" where
  "buildCapabilities class = (
     let deviceClass = class AND 0x1FFC;
         name = deviceTypeLegend deviceClass
     in if name \<noteq> '''' then name @ '' [LE]'' else ''[LE]'')"

text \<open>
  The capability table the specification speaks of: the keys and legend strings of the
  switch above, as data.
\<close>

definition legend_table :: "(32 word \<times> string) list" where
  "legend_table = [
     (0x0000, ''Misc''),
     (0x0100, ''Computer''),
     (0x0104, ''Desktop''),
     (0x0108, ''Server''),
     (0x010C, ''Laptop''),
     (0x0110, ''PDA''),
     (0x0114, ''Palm''),
     (0x0118, ''Wearable Computer''),
     (0x0200, ''Phone''),
     (0x0204, ''Cellphone''),
     (0x0208, ''Cordless Phone''),
     (0x020C, ''Smartphone''),
     (0x0210, ''Modem/GW''),
     (0x0214, ''ISDN''),
     (0x0400, ''A/V''),
     (0x0404, ''Headset''),
     (0x0408, ''Handsfree''),
     (0x0410, ''Mic''),
     (0x0414, ''Speaker''),
     (0x0418, ''Headphones''),
     (0x041C, ''Portable Audio''),
     (0x0420, ''Car Audio''),
     (0x0428, ''HiFi''),
     (0x0430, ''Monitor''),
     (0x0434, ''Settop''),
     (0x0438, ''Camera''),
     (0x043C, ''VCR''),
     (0x0440, ''Videoconf''),
     (0x0448, ''AV Toy''),
     (0x044C, ''Display/Speaker''),
     (0x0456, ''Camcorder''),
     (0x0500, ''Keyboard !p''),
     (0x0540, ''Keyboard''),
     (0x0580, ''Pointer''),
     (0x05C0, ''Keyboard+p''),
     (0x0700, ''Wearable''),
     (0x0704, ''Watch''),
     (0x0708, ''Jacket''),
     (0x070C, ''Pager''),
     (0x0710, ''Helmet''),
     (0x0714, ''Glasses''),
     (0x0800, ''Toy''),
     (0x0804, ''Robot''),
     (0x0808, ''Vehicle''),
     (0x080C, ''Doll''),
     (0x0814, ''Game''),
     (0x0820, ''Controller''),
     (0x0900, ''Health''),
     (0x0904, ''Blood Pressure''),
     (0x0908, ''Thermometer''),
     (0x090C, ''Scale''),
     (0x0910, ''Glucose''),
     (0x0914, ''PulseOxy''),
     (0x0918, ''Pulse''),
     (0x091C, ''Health Display''),
     (0x1F00, ''Uncategorized'')]"

section \<open>External collaborators: GPS reports, scan results, the BlueZ registry\<close>

text \<open>
  The fields of \<^verbatim>\<open>gpsd.TPVReport\<close> the filter reads; \<^verbatim>\<open>Mode\<close> is a byte
  (0 no value, 1 no fix, 2 a 2D fix, 3 a 3D fix).
\<close>

record TPVReport =
  Mode :: "8 word"
  Lat :: float64
  Lon :: float64
  Alt :: float64
  Eph :: float64

text \<open>
  What the callback reads of a \<^verbatim>\<open>bluetooth.ScanResult\<close>: the address as
  \<^verbatim>\<open>Address.String()\<close> renders it, \<^verbatim>\<open>LocalName()\<close>, the \<^verbatim>\<open>int16\<close> RSSI and
  the manufacturer data elements (company identifier, a \<^verbatim>\<open>uint16\<close>, and payload bytes)
  in the order \<^verbatim>\<open>ManufacturerData()\<close> returns them.
\<close>

record ScanResult =
  Address :: string
  LocalName :: string
  RSSI :: "16 word"
  ManufacturerData :: "(16 word \<times> 8 word list) list"

text \<open>
  A D-Bus variant, as far as its dynamic type matters, and the connection: the answer to
  \<^verbatim>\<open>conn.Object(dest, path).GetProperty(name)\<close>, an error text or a variant.
\<close>

datatype variant =
    VUint32 "32 word"
  | VInt32 "32 word"
  | VUint16 "16 word"
  | VBool bool
  | VString string

type_synonym dbus_conn = "string \<Rightarrow> string \<Rightarrow> string \<Rightarrow> string + variant"

text \<open>
  A \<^verbatim>\<open>time.Time\<close> in UTC, by its calendar fields. The zero \<^verbatim>\<open>Time\<close> (what a map
  read of a missing key gives) is January 1 of year 1, 00:00:00.
\<close>

record time =
  Year :: nat
  Month :: nat
  Day :: nat
  Hour :: nat
  Minute :: nat
  Second :: nat
  Nanosecond :: nat

definition zero_time :: time where
  "zero_time = \<lparr>Year = 1, Month = 1, Day = 1, Hour = 0, Minute = 0, Second = 0, Nanosecond = 0\<rparr>"

text \<open>\<^verbatim>\<open>t.Format("2006-01-02 15:04:05")\<close>\<close>

definition format_time :: "time \<Rightarrow> string" where
  "format_time t =
     zero_pad 4 (dec_nat (Year t)) @ ''-'' @ zero_pad 2 (dec_nat (Month t)) @ ''-'' @
     zero_pad 2 (dec_nat (Day t)) @ '' '' @ zero_pad 2 (dec_nat (Hour t)) @ '':'' @
     zero_pad 2 (dec_nat (Minute t)) @ '':'' @ zero_pad 2 (dec_nat (Second t))"

section \<open>DeviceClassResolver: \<^verbatim>\<open>getDeviceClass\<close>\<close>

text \<open>\<^verbatim>\<open>strings.ReplaceAll(addr, ":", "_")\<close>\<close>

definition sanitize :: "string \<Rightarrow> string" where
  "sanitize addr = map (\<lambda>c. if c = CHR '':'' then CHR ''_'' else c) addr"

definition getDeviceClass :: "dbus_conn \<Rightarrow> string \<Rightarrow> 32 word" where
  "getDeviceClass conn addr = (
     let sanitized = sanitize addr;
         path = ''/org/bluez/hci0/dev_'' @ sanitized
     in case conn ''org.bluez'' path ''org.bluez.Device1.Class'' of
          Inr (VUint32 class) \<Rightarrow> class
        | _ \<Rightarrow> 0)"

section \<open>Process state: location snapshot, first-seen registry, log file\<close>

record LocationData =
  Fix :: bool
  Latitude :: float64
  Longitude :: float64
  Altitude :: float64
  Error :: float64

text \<open>
  The globals \<^verbatim>\<open>currentLocation\<close> and \<^verbatim>\<open>firstSeen\<close>, the records handed to the CSV
  writer so far (each \<^verbatim>\<open>writer.Write\<close> is followed by a \<^verbatim>\<open>Flush\<close>), and the lines
  printed on standard output. A row of the log is the record given to \<^verbatim>\<open>writer.Write\<close>;
  the quoting done by \<^verbatim>\<open>encoding/csv\<close> and write errors of the file, which the program
  does not look at, are outside the model.
\<close>

record state =
  currentLocation :: LocationData
  firstSeen :: "string \<rightharpoonup> time"
  csv_rows :: "string list list"
  stdout :: "string list"

definition zero_location :: LocationData where
  "zero_location = \<lparr>Fix = False, Latitude = Finite False 0 0, Longitude = Finite False 0 0,
     Altitude = Finite False 0 0, Error = Finite False 0 0\<rparr>"

definition csv_header :: "string list" where
  "csv_header = [''MAC'', ''SSID'', ''AuthMode'', ''FirstSeen'', ''Channel'',
     ''Frequency'', ''RSSI'', ''CurrentLatitude'', ''CurrentLongitude'',
     ''AltitudeMeters'', ''AccuracyMeters'', ''RCOIs'', ''MfgrId'', ''Type'']"

section \<open>LocationTracker: \<^verbatim>\<open>tpvFilter\<close>\<close>

text \<open>
  The assignment to \<^verbatim>\<open>currentLocation\<close> happens under \<^verbatim>\<open>locationMu\<close>; here each
  critical section is one step. The interleaving of the single field accesses is modelled
  further below.
\<close>

definition tpvFilter :: "TPVReport \<Rightarrow> state \<Rightarrow> state" where
  "tpvFilter report s = (
     let fix = (2 \<le> Mode report)
     in s\<lparr>currentLocation :=
            \<lparr>Fix = fix, Latitude = Lat report, Longitude = Lon report,
             Altitude = Alt report, Error = Eph report\<rparr>,
          stdout := stdout s @
            [''GPS update: Fix '' @ fmt_bool fix @ '' Lat '' @ fmt_float 6 (Lat report) @
             '' Lon '' @ fmt_float 6 (Lon report) @ '' Alt '' @ fmt_float 1 (Alt report) @
             '' m Acc '' @ fmt_float 1 (Eph report) @ '' m'']\<rparr>)"

section \<open>ScanCorrelator: the callback passed to \<^verbatim>\<open>adapter.Scan\<close>\<close>

definition scan_callback :: "platform \<Rightarrow> dbus_conn \<Rightarrow> ScanResult \<Rightarrow> time \<Rightarrow> state \<Rightarrow> state" where
  "scan_callback p dbusConn device now s = (
     let loc = currentLocation s
     in if \<not> Fix loc then
          s\<lparr>stdout := stdout s @ [''No GPS fix, skipping device: '' @ Address device]\<rparr>
        else
          let addr = Address device;
              seen = (if firstSeen s addr = None then (firstSeen s)(addr \<mapsto> now) else firstSeen s);
              deviceClass = getDeviceClass dbusConn addr;
              capabilities = buildCapabilities deviceClass;
              deviceTypeCode = deviceClass AND 0x1FFC;
              mfgrID = (case ManufacturerData device of
                          [] \<Rightarrow> ''''
                        | md # _ \<Rightarrow> dec_nat (unat (fst md)));
              row = [
                addr,
                LocalName device,
                capabilities,
                format_time (case seen addr of Some t \<Rightarrow> t | None \<Rightarrow> zero_time),
                ''0'',
                dec_nat (unat deviceTypeCode),
                dec_int (sint (RSSI device)),
                fmt_float 6 (Latitude loc),
                fmt_float 6 (Longitude loc),
                dec_int (int_of_float64 p (Altitude loc)),
                fmt_float 6 (Error loc),
                '''',
                mfgrID,
                ''BLE'']
          in s\<lparr>firstSeen := seen,
               csv_rows := csv_rows s @ [row],
               stdout := stdout s @
                 [''Found device: '' @ addr @ '' ('' @ LocalName device @ '') Class: 0x'' @
                  zero_pad 6 (hex_nat (unat deviceClass)) @ '' Capabilities: '' @ capabilities]\<rparr>)"

section \<open>The run of the process\<close>

text \<open>
  The two callbacks are driven by two event sources. A run is the sequence of their
  invocations, the scan loop calling its callback for one result after the other; a
  discovery event carries what its callback observes of the outside: the registry's
  answers, the scan result and the clock. The callback reads \<^verbatim>\<open>currentLocation\<close> once,
  so a position report that arrives while it runs has the effect of one that arrives after.
\<close>

datatype event =
    PositionReport TPVReport
  | Discovery dbus_conn ScanResult time

fun step :: "platform \<Rightarrow> event \<Rightarrow> state \<Rightarrow> state" where
  "step p (PositionReport report) s = tpvFilter report s"
| "step p (Discovery dbusConn device now) s = scan_callback p dbusConn device now s"

fun run :: "platform \<Rightarrow> event list \<Rightarrow> state \<Rightarrow> state" where
  "run p [] s = s"
| "run p (e # es) s = run p es (step p e s)"

text \<open>
  Startup: every \<^verbatim>\<open>must\<close> panics on an error; when all succeed the log holds the
  header row and the path has been printed.
\<close>

definition must :: "string \<Rightarrow> string option \<Rightarrow> string + unit" where
  "must action err = (case err of
      Some e \<Rightarrow> Inl (''failed to '' @ action @ '': '' @ e)
    | None \<Rightarrow> Inr ())"

record startup_env =
  enable_err :: "string option"
  dial_err :: "string option"
  dbus_err :: "string option"
  mkdir_err :: "string option"
  create_err :: "string option"
  csvPath :: string

definition initial_state :: "string \<Rightarrow> state" where
  "initial_state path = \<lparr>currentLocation = zero_location, firstSeen = Map.empty,
     csv_rows = [csv_header], stdout = [''Writing to '' @ path]\<rparr>"

definition startup :: "startup_env \<Rightarrow> string + state" where
  "startup env =
     (case must ''enable BLE stack'' (enable_err env) of Inl msg \<Rightarrow> Inl msg | Inr _ \<Rightarrow>
     (case must ''gpsd dial'' (dial_err env) of Inl msg \<Rightarrow> Inl msg | Inr _ \<Rightarrow>
     (case must ''connect to system dbus'' (dbus_err env) of Inl msg \<Rightarrow> Inl msg | Inr _ \<Rightarrow>
     (case must ''create loot directory'' (mkdir_err env) of Inl msg \<Rightarrow> Inl msg | Inr _ \<Rightarrow>
     (case must ''create CSV file'' (create_err env) of Inl msg \<Rightarrow> Inl msg | Inr _ \<Rightarrow>
      Inr (initial_state (csvPath env)))))))"

text \<open>
  The end of \<^verbatim>\<open>main\<close>: when \<^verbatim>\<open>adapter.Scan\<close> returns, an error is printed, and the
  empty loop \<^verbatim>\<open>for {}\<close> follows in either case. \<open>None\<close> stands for a \<^verbatim>\<open>main\<close> that
  never returns.
\<close>

definition report_scan_error :: "string option \<Rightarrow> state \<Rightarrow> state" where
  "report_scan_error err s = (case err of
      Some e \<Rightarrow> s\<lparr>stdout := stdout s @ [''failed to start scan: '' @ e]\<rparr>
    | None \<Rightarrow> s)"

partial_function (option) busy_loop :: "state \<Rightarrow> state option" where
  "busy_loop s = busy_loop s"

definition main_after_scan :: "string option \<Rightarrow> state \<Rightarrow> state option" where
  "main_after_scan err s = busy_loop (report_scan_error err s)"

text \<open>
  The same lines of \<^verbatim>\<open>main\<close>, one operation at a time, with the effects of the main
  goroutine recorded in order: the call of \<^verbatim>\<open>adapter.Scan\<close> (which returns \<open>r\<close>), the
  test of the error with its \<^verbatim>\<open>Println\<close>, and the loop \<^verbatim>\<open>for {}\<close>, whose body is empty.
  \<open>main_steps n\<close> runs \<open>n\<close> operations.
\<close>

datatype effect = ScanCall | Println string

datatype control = AtScan | AtErrCheck "string option" | AtLoop

fun main_step :: "string option \<Rightarrow> control \<times> effect list \<Rightarrow> control \<times> effect list" where
  "main_step r (AtScan, tr) = (AtErrCheck r, tr @ [ScanCall])"
| "main_step r (AtErrCheck None, tr) = (AtLoop, tr)"
| "main_step r (AtErrCheck (Some e), tr) =
     (AtLoop, tr @ [Println (''failed to start scan: '' @ e)])"
| "main_step r (AtLoop, tr) = (AtLoop, tr)"

fun main_steps :: "nat \<Rightarrow> string option \<Rightarrow> control \<times> effect list \<Rightarrow> control \<times> effect list" where
  "main_steps 0 r c = c"
| "main_steps (Suc n) r c = main_steps n r (main_step r c)"

section \<open>The two callbacks running concurrently\<close>

text \<open>
  The GPS filter and the scan callback run on different goroutines. Both touch
  \<^verbatim>\<open>currentLocation\<close> only between \<^verbatim>\<open>locationMu.Lock()\<close> and
  \<^verbatim>\<open>locationMu.Unlock()\<close>. A struct assignment is not atomic: the model moves one field
  at a time, in the order of the struct's declaration, and a scheduler interleaves the
  threads' single operations at will. \<open>location_of\<close> is the value \<^verbatim>\<open>tpvFilter\<close> assigns.
\<close>

definition location_of :: "TPVReport \<Rightarrow> LocationData" where
  "location_of report =
     \<lparr>Fix = (2 \<le> Mode report), Latitude = Lat report, Longitude = Lon report,
      Altitude = Alt report, Error = Eph report\<rparr>"

datatype field = FFix | FLatitude | FLongitude | FAltitude | FError

definition all_fields :: "field list" where
  "all_fields = [FFix, FLatitude, FLongitude, FAltitude, FError]"

fun copy_field :: "field \<Rightarrow> LocationData \<Rightarrow> LocationData \<Rightarrow> LocationData" where
  "copy_field FFix src dst = dst\<lparr>Fix := Fix src\<rparr>"
| "copy_field FLatitude src dst = dst\<lparr>Latitude := Latitude src\<rparr>"
| "copy_field FLongitude src dst = dst\<lparr>Longitude := Longitude src\<rparr>"
| "copy_field FAltitude src dst = dst\<lparr>Altitude := Altitude src\<rparr>"
| "copy_field FError src dst = dst\<lparr>Error := Error src\<rparr>"

fun agree_on :: "field \<Rightarrow> LocationData \<Rightarrow> LocationData \<Rightarrow> bool" where
  "agree_on FFix a b = (Fix a = Fix b)"
| "agree_on FLatitude a b = (Latitude a = Latitude b)"
| "agree_on FLongitude a b = (Longitude a = Longitude b)"
| "agree_on FAltitude a b = (Altitude a = Altitude b)"
| "agree_on FError a b = (Error a = Error b)"

text \<open>
  A goroutine is idle, waits for the mutex, or holds it with some fields still to move: an
  updater stores the fields of its report's value into \<^verbatim>\<open>currentLocation\<close>, a reader
  loads them into its local \<^verbatim>\<open>loc\<close> (whose content before the copy is arbitrary). With
  no field left, the next operation is the \<^verbatim>\<open>Unlock\<close>.
\<close>

datatype goroutine =
    Idle
  | UpdateWaiting TPVReport
  | Updating TPVReport "field list"
  | ReadWaiting LocationData
  | Reading LocationData "field list"

record shared_state =
  locked :: bool
  location :: LocationData
  goroutines :: "nat \<Rightarrow> goroutine"
  issued :: "TPVReport list"
  snapshots :: "LocationData list"

datatype action =
    StartUpdate nat TPVReport
  | StartRead nat LocationData
  | Advance nat

fun perform :: "action \<Rightarrow> shared_state \<Rightarrow> shared_state" where
  "perform (StartUpdate i report) c =
     (case goroutines c i of
        Idle \<Rightarrow> c\<lparr>goroutines := (goroutines c)(i := UpdateWaiting report),
                   issued := report # issued c\<rparr>
      | _ \<Rightarrow> c)"
| "perform (StartRead i garbage) c =
     (case goroutines c i of
        Idle \<Rightarrow> c\<lparr>goroutines := (goroutines c)(i := ReadWaiting garbage)\<rparr>
      | _ \<Rightarrow> c)"
| "perform (Advance i) c =
     (case goroutines c i of
        Idle \<Rightarrow> c
      | UpdateWaiting report \<Rightarrow>
          if locked c then c
          else c\<lparr>locked := True, goroutines := (goroutines c)(i := Updating report all_fields)\<rparr>
      | Updating report [] \<Rightarrow>
          c\<lparr>locked := False, goroutines := (goroutines c)(i := Idle)\<rparr>
      | Updating report (f # fs) \<Rightarrow>
          c\<lparr>location := copy_field f (location_of report) (location c),
            goroutines := (goroutines c)(i := Updating report fs)\<rparr>
      | ReadWaiting loc \<Rightarrow>
          if locked c then c
          else c\<lparr>locked := True, goroutines := (goroutines c)(i := Reading loc all_fields)\<rparr>
      | Reading loc [] \<Rightarrow>
          c\<lparr>locked := False, goroutines := (goroutines c)(i := Idle),
            snapshots := snapshots c @ [loc]\<rparr>
      | Reading loc (f # fs) \<Rightarrow>
          c\<lparr>goroutines := (goroutines c)(i := Reading (copy_field f (location c) loc) fs)\<rparr>)"

fun schedule :: "action list \<Rightarrow> shared_state \<Rightarrow> shared_state" where
  "schedule [] c = c"
| "schedule (a # as) c = schedule as (perform a c)"

definition start_state :: shared_state where
  "start_state = \<lparr>locked = False, location = zero_location, goroutines = (\<lambda>_. Idle),
     issued = [], snapshots = []\<rparr>"

text \<open>The invariant of the lock discipline.\<close>

fun holds_lock :: "goroutine \<Rightarrow> bool" where
  "holds_lock (Updating report fs) = True"
| "holds_lock (Reading loc fs) = True"
| "holds_lock g = False"

fun is_updating :: "goroutine \<Rightarrow> bool" where
  "is_updating (Updating report fs) = True"
| "is_updating g = False"

definition from_one_update :: "TPVReport list \<Rightarrow> LocationData \<Rightarrow> bool" where
  "from_one_update reports loc = (loc = zero_location \<or> loc \<in> location_of ` set reports)"

definition moved :: "field list \<Rightarrow> LocationData \<Rightarrow> LocationData \<Rightarrow> bool" where
  "moved remaining a b = (\<forall>f. f \<notin> set remaining \<longrightarrow> agree_on f a b)"

definition lock_invariant :: "shared_state \<Rightarrow> bool" where
  "lock_invariant c =
     ((\<forall>i. holds_lock (goroutines c i) \<longrightarrow> locked c)
      \<and> (\<forall>i j. holds_lock (goroutines c i) \<and> holds_lock (goroutines c j) \<longrightarrow> i = j)
      \<and> ((\<forall>i. \<not> is_updating (goroutines c i)) \<longrightarrow> from_one_update (issued c) (location c))
      \<and> (\<forall>i report fs. goroutines c i = Updating report fs \<longrightarrow>
            report \<in> set (issued c) \<and> moved fs (location c) (location_of report))
      \<and> (\<forall>i report. goroutines c i = UpdateWaiting report \<longrightarrow> report \<in> set (issued c))
      \<and> (\<forall>i loc fs. goroutines c i = Reading loc fs \<longrightarrow> moved fs loc (location c))
      \<and> (\<forall>loc \<in> set (snapshots c). from_one_update (issued c) loc))"

section \<open>Sample inputs: the specification's end-to-end scenario\<close>

text \<open>
  A 64-bit platform on which an unrepresentable conversion gives the smallest \<^verbatim>\<open>int\<close>,
  a device, a registry that answers for that device's object path only, a mode-3 report at
  latitude 37.0 and longitude -122.0, and a clock reading.
\<close>

definition amd64 :: platform where
  "amd64 = \<lparr>int_bits = 64, float_to_int_oob = (\<lambda>_. - (2 ^ 63))\<rparr>"

definition scenario_device :: ScanResult where
  "scenario_device = \<lparr>Address = ''AA:BB:CC:DD:EE:FF'', LocalName = ''Pixel'', RSSI = - 60,
     ManufacturerData = [(0x00E0, [0x01, 0x02])]\<rparr>"

definition scenario_registry :: "string + variant \<Rightarrow> dbus_conn" where
  "scenario_registry reply dest path prop =
     (if dest = ''org.bluez'' \<and> path = ''/org/bluez/hci0/dev_AA_BB_CC_DD_EE_FF'' \<and>
         prop = ''org.bluez.Device1.Class''
      then reply else Inl ''org.freedesktop.DBus.Error.UnknownObject'')"

definition scenario_report :: TPVReport where
  "scenario_report = \<lparr>Mode = 3, Lat = Finite False 37 0, Lon = Finite True 122 0,
     Alt = Finite False 10 0, Eph = Finite False 5 0\<rparr>"

definition scenario_time :: time where
  "scenario_time = \<lparr>Year = 2026, Month = 1, Day = 2, Hour = 3, Minute = 4, Second = 5,
     Nanosecond = 0\<rparr>"

text \<open>
  An interleaving: goroutine 0 starts an update with the scenario's report and takes the
  mutex; goroutine 1 starts a read and finds the mutex taken while the update has stored
  two of its fields; the update finishes; a second update (mode 1, no fix) is started but
  must wait while the reader copies its snapshot.
\<close>

definition scenario_schedule :: "action list" where
  "scenario_schedule =
     [StartUpdate 0 scenario_report, Advance 0, Advance 0, Advance 0,
      StartRead 1 \<lparr>Fix = True, Latitude = NaN, Longitude = NaN, Altitude = NaN, Error = NaN\<rparr>,
      Advance 1, Advance 0, Advance 1, Advance 0, Advance 0, Advance 1, Advance 0,
      StartUpdate 0 (scenario_report\<lparr>Mode := 1, Lat := NaN\<rparr>),
      Advance 1, Advance 0, Advance 1, Advance 1, Advance 0, Advance 1, Advance 1, Advance 1,
      Advance 1, Advance 0, Advance 0]"

section \<open>Evaluating the renderings\<close>

lemma dec_nat_small: "n < 10 \<Longrightarrow> dec_nat n = [digit_char n]"
  by (simp add: dec_nat.simps)

lemma dec_nat_big: "\<not> n < 10 \<Longrightarrow> dec_nat n = dec_nat (n div 10) @ [digit_char (n mod 10)]"
  by (subst dec_nat.simps) simp

lemma hex_nat_small: "n < 16 \<Longrightarrow> hex_nat n = [digit_char n]"
  by (simp add: hex_nat.simps)

lemma hex_nat_big: "\<not> n < 16 \<Longrightarrow> hex_nat n = hex_nat (n div 16) @ [digit_char (n mod 16)]"
  by (subst hex_nat.simps) simp

lemma replicate_numeral: "replicate (numeral k) x = x # replicate (pred_numeral k) x"
  by (simp add: numeral_eq_Suc)

lemmas render_simps =
  dec_nat_small dec_nat_big hex_nat_small hex_nat_big digit_char_def dec_int_def
  zero_pad_def replicate_numeral fmt_bool_def

section \<open>CapabilityEncoder\<close>

lemma map_of_Cons_if: "map_of ((k, v) # ps) x = (if x = k then Some v else map_of ps x)"
  by simp

lemma case_option_if:
  "(case (if b then Some v else e) of Some n \<Rightarrow> f n | None \<Rightarrow> d) =
   (if b then f v else (case e of Some n \<Rightarrow> f n | None \<Rightarrow> d))"
  by simp

lemma legend_lookup:
  "deviceTypeLegend x = (case map_of legend_table x of Some n \<Rightarrow> n | None \<Rightarrow> ''Misc'')"
  unfolding deviceTypeLegend_def legend_table_def
  by (simp only: map_of_Cons_if case_option_if map_of.simps(1) option.case)

lemma legend_table_names: "(k, n) \<in> set legend_table \<Longrightarrow> n \<noteq> ''''"
  by (auto simp: legend_table_def)

lemma legend_nonempty: "deviceTypeLegend x \<noteq> ''''"
proof (cases "map_of legend_table x")
  case None
  then show ?thesis by (simp add: legend_lookup)
next
  case (Some n)
  then have "(x, n) \<in> set legend_table" by (rule map_of_SomeD)
  then have "n \<noteq> ''''" by (rule legend_table_names)
  with Some show ?thesis by (simp add: legend_lookup)
qed

lemma buildCapabilities_suffix: "buildCapabilities c = deviceTypeLegend (c AND 0x1FFC) @ '' [LE]''"
  by (simp add: buildCapabilities_def legend_nonempty)

lemma mask_idem: "(c AND 0x1FFC) AND 0x1FFC = c AND (0x1FFC :: 32 word)"
  by (simp add: and.assoc)

text \<open>
  One key of the switch, 0x0456, has bit 1 set, which the mask clears: no class code
  reaches that case.
\<close>

lemma masked_code_not_0x0456: "c AND 0x1FFC \<noteq> (0x0456 :: 32 word)"
proof
  assume "c AND 0x1FFC = 0x0456"
  then have "(c AND 0x1FFC) AND 2 = (0x0456 :: 32 word) AND 2" by simp
  then show False by (simp add: and.assoc)
qed

lemma never_Camcorder: "buildCapabilities c \<noteq> ''Camcorder [LE]''"
proof -
  have "deviceTypeLegend (c AND 0x1FFC) \<noteq> ''Camcorder''"
    using masked_code_not_0x0456 [of c] by (simp add: deviceTypeLegend_def)
  then show ?thesis by (simp add: buildCapabilities_suffix)
qed

text \<open>
  C2. For every 32-bit class code, \<open>buildCapabilities\<close> looks the masked code
  (\<open>c AND 0x1FFC\<close>, bits 2 to 12) up in the capability table: when the masked code is a
  key it returns that key's legend string followed by \<open>'' [LE]''\<close>, and when it is absent
  it returns \<open>''Misc [LE]''\<close>. The code 0 gives \<open>''Misc [LE]''\<close>; 0x0100, 0x020C and 0x1F00
  give \<open>''Computer [LE]''\<close>, \<open>''Smartphone [LE]''\<close> and \<open>''Uncategorized [LE]''\<close>.
\<close>

theorem buildCapabilities_table:
  "buildCapabilities c =
     (case map_of legend_table (c AND 0x1FFC) of
        Some name \<Rightarrow> name @ '' [LE]''
      | None \<Rightarrow> ''Misc [LE]'')
   \<and> buildCapabilities 0 = ''Misc [LE]''
   \<and> buildCapabilities 0x0100 = ''Computer [LE]''
   \<and> buildCapabilities 0x020C = ''Smartphone [LE]''
   \<and> buildCapabilities 0x1F00 = ''Uncategorized [LE]''"
proof -
  have "buildCapabilities c =
     (case map_of legend_table (c AND 0x1FFC) of
        Some name \<Rightarrow> name @ '' [LE]''
      | None \<Rightarrow> ''Misc [LE]'')"
    by (simp add: buildCapabilities_suffix legend_lookup split: option.split)
  moreover have "buildCapabilities 0 = ''Misc [LE]''"
    by (simp add: buildCapabilities_suffix deviceTypeLegend_def)
  moreover have "buildCapabilities 0x0100 = ''Computer [LE]''"
    by (simp add: buildCapabilities_suffix deviceTypeLegend_def)
  moreover have "buildCapabilities 0x020C = ''Smartphone [LE]''"
    by (simp add: buildCapabilities_suffix deviceTypeLegend_def)
  moreover have "buildCapabilities 0x1F00 = ''Uncategorized [LE]''"
    by (simp add: buildCapabilities_suffix deviceTypeLegend_def)
  ultimately show ?thesis by blast
qed

text \<open>
  C5. \<open>buildCapabilities\<close> is a function of the masked code alone: for every 32-bit class
  code \<open>c\<close>, \<open>buildCapabilities c = buildCapabilities (c AND 0x1FFC)\<close>, and two codes with
  the same bits 2 to 12 get the same string. (It is a total HOL function, so it is defined
  and deterministic on every input.)
\<close>

theorem buildCapabilities_mask_invariant:
  "buildCapabilities c = buildCapabilities (c AND 0x1FFC)
   \<and> (\<forall>d. c AND 0x1FFC = d AND 0x1FFC \<longrightarrow> buildCapabilities c = buildCapabilities d)"
  by (simp add: buildCapabilities_suffix mask_idem)

theorem buildCapabilities_mask_invariant_witness:
  "(0x5A020F :: 32 word) AND 0x1FFC = 0x020C AND 0x1FFC
   \<and> buildCapabilities 0x5A020F = buildCapabilities 0x020C
   \<and> buildCapabilities 0x5A020F = ''Smartphone [LE]''"
proof -
  have m: "(0x5A020F :: 32 word) AND 0x1FFC = 0x020C AND 0x1FFC" by simp
  have "buildCapabilities 0x5A020F = buildCapabilities 0x020C"
    using buildCapabilities_mask_invariant [of "0x5A020F"] m by blast
  moreover have "buildCapabilities 0x020C = ''Smartphone [LE]''"
    by (simp add: buildCapabilities_suffix deviceTypeLegend_def)
  ultimately show ?thesis using m by simp
qed

section \<open>The callbacks, one invocation at a time\<close>

lemma busy_loop_None: "busy_loop s = None"
proof (cases "busy_loop s")
  case None
  then show ?thesis .
next
  case (Some y)
  have False
    by (rule busy_loop.raw_induct [where P = "\<lambda>_ _. False", OF _ Some]) blast
  then show ?thesis ..
qed

lemma tpvFilter_firstSeen: "firstSeen (tpvFilter r s) = firstSeen s"
  by (simp add: tpvFilter_def Let_def)

lemma tpvFilter_rows: "csv_rows (tpvFilter r s) = csv_rows s"
  by (simp add: tpvFilter_def Let_def)

lemma tpvFilter_location:
  "currentLocation (tpvFilter r s) =
     \<lparr>Fix = (2 \<le> Mode r), Latitude = Lat r, Longitude = Lon r, Altitude = Alt r, Error = Eph r\<rparr>"
  by (simp add: tpvFilter_def Let_def)

lemma scan_callback_no_fix:
  "\<not> Fix (currentLocation s) \<Longrightarrow>
   scan_callback p conn d now s =
     s\<lparr>stdout := stdout s @ [''No GPS fix, skipping device: '' @ Address d]\<rparr>"
  by (simp add: scan_callback_def)

lemma scan_callback_location: "currentLocation (scan_callback p conn d now s) = currentLocation s"
  by (simp add: scan_callback_def Let_def)

lemma scan_callback_firstSeen_keep:
  "firstSeen s a = Some t \<Longrightarrow> firstSeen (scan_callback p conn d now s) a = Some t"
  by (auto simp: scan_callback_def Let_def)

lemma scan_callback_firstSeen_touch:
  "Fix (currentLocation s) \<Longrightarrow>
   firstSeen (scan_callback p conn d now s) (Address d) =
     Some (case firstSeen s (Address d) of Some t \<Rightarrow> t | None \<Rightarrow> now)"
  by (simp add: scan_callback_def Let_def split: option.split)

lemma scan_callback_rows:
  "csv_rows (scan_callback p conn d now s) =
     csv_rows s @
       (if Fix (currentLocation s) then [last (csv_rows (scan_callback p conn d now s))] else [])"
  by (simp add: scan_callback_def Let_def)

lemma scan_callback_row_schema:
  assumes "Fix (currentLocation s)"
  shows "length (last (csv_rows (scan_callback p conn d now s))) = 14"
    and "last (csv_rows (scan_callback p conn d now s)) ! 0 = Address d"
    and "last (csv_rows (scan_callback p conn d now s)) ! 4 = ''0''"
    and "last (csv_rows (scan_callback p conn d now s)) ! 11 = []"
    and "last (csv_rows (scan_callback p conn d now s)) ! 13 = ''BLE''"
  using assms by (simp_all add: scan_callback_def Let_def)

lemma scan_callback_row_firstSeen:
  assumes "Fix (currentLocation s)"
  shows "last (csv_rows (scan_callback p conn d now s)) ! 3 =
     format_time (case firstSeen s (Address d) of Some t \<Rightarrow> t | None \<Rightarrow> now)"
  using assms by (simp add: scan_callback_def Let_def split: option.split)

lemma scan_callback_row_class:
  assumes "Fix (currentLocation s)"
  shows "last (csv_rows (scan_callback p conn d now s)) ! 2 =
           buildCapabilities (getDeviceClass conn (Address d))"
    and "last (csv_rows (scan_callback p conn d now s)) ! 5 =
           dec_nat (unat (getDeviceClass conn (Address d) AND 0x1FFC))"
  using assms by (simp_all add: scan_callback_def Let_def)

lemma scan_callback_row_signal:
  assumes "Fix (currentLocation s)"
  shows "last (csv_rows (scan_callback p conn d now s)) ! 6 = dec_int (sint (RSSI d))"
  using assms by (simp add: scan_callback_def Let_def)

lemma scan_callback_row_position:
  assumes "Fix (currentLocation s)"
  shows "last (csv_rows (scan_callback p conn d now s)) ! 7 =
           fmt_float 6 (Latitude (currentLocation s))"
    and "last (csv_rows (scan_callback p conn d now s)) ! 8 =
           fmt_float 6 (Longitude (currentLocation s))"
    and "last (csv_rows (scan_callback p conn d now s)) ! 9 =
           dec_int (int_of_float64 p (Altitude (currentLocation s)))"
  using assms by (simp_all add: scan_callback_def Let_def)

section \<open>Runs\<close>

lemma step_firstSeen_keep: "firstSeen s a = Some t \<Longrightarrow> firstSeen (step p e s) a = Some t"
  by (cases e) (simp_all add: tpvFilter_firstSeen scan_callback_firstSeen_keep)

lemma step_rows_schema:
  "\<exists>new. csv_rows (step p e s) = csv_rows s @ new \<and>
     (\<forall>r\<in>set new. length r = 14 \<and> r ! 4 = ''0'' \<and> r ! 11 = [] \<and> r ! 13 = ''BLE'')"
proof (cases e)
  case (PositionReport r)
  then show ?thesis by (simp add: tpvFilter_rows)
next
  case (Discovery conn d now)
  show ?thesis
  proof (cases "Fix (currentLocation s)")
    case True
    have "csv_rows (step p e s) = csv_rows s @ [last (csv_rows (scan_callback p conn d now s))]"
      using scan_callback_rows [of p conn d now s] True Discovery by simp
    then show ?thesis
      using scan_callback_row_schema [OF True, of p conn d now] by simp
  next
    case False
    then show ?thesis using Discovery by (simp add: scan_callback_no_fix)
  qed
qed

lemma step_rows_firstSeen:
  assumes "firstSeen s a = Some t"
  shows "\<exists>new. csv_rows (step p e s) = csv_rows s @ new \<and>
     (\<forall>r\<in>set new. r ! 0 = a \<longrightarrow> r ! 3 = format_time t)"
proof (cases e)
  case (PositionReport r)
  then show ?thesis by (simp add: tpvFilter_rows)
next
  case (Discovery conn d now)
  show ?thesis
  proof (cases "Fix (currentLocation s)")
    case True
    have "csv_rows (step p e s) = csv_rows s @ [last (csv_rows (scan_callback p conn d now s))]"
      using scan_callback_rows [of p conn d now s] True Discovery by simp
    moreover have "last (csv_rows (scan_callback p conn d now s)) ! 0 = a \<longrightarrow>
        last (csv_rows (scan_callback p conn d now s)) ! 3 = format_time t"
      using scan_callback_row_schema(2) [OF True, of p conn d now]
        scan_callback_row_firstSeen [OF True, of p conn d now] assms by auto
    ultimately show ?thesis by simp
  next
    case False
    then show ?thesis using Discovery by (simp add: scan_callback_no_fix)
  qed
qed

lemma run_rows_invariant:
  assumes inv: "\<And>e s. I s \<Longrightarrow> I (step p e s)"
    and new: "\<And>e s. I s \<Longrightarrow>
      \<exists>new. csv_rows (step p e s) = csv_rows s @ new \<and> (\<forall>r\<in>set new. P r)"
    and start: "I s"
  shows "I (run p evs s) \<and>
    (\<exists>new. csv_rows (run p evs s) = csv_rows s @ new \<and> (\<forall>r\<in>set new. P r))"
  using start
proof (induction evs arbitrary: s)
  case Nil
  then show ?case by simp
next
  case (Cons e evs)
  from new [OF Cons.prems, of e] obtain n1
    where n1: "csv_rows (step p e s) = csv_rows s @ n1" "\<forall>r\<in>set n1. P r" by blast
  from Cons.IH [OF inv [OF Cons.prems, of e]] obtain n2
    where n2: "I (run p evs (step p e s))"
      "csv_rows (run p evs (step p e s)) = csv_rows (step p e s) @ n2" "\<forall>r\<in>set n2. P r"
    by blast
  have "csv_rows (run p (e # evs) s) = csv_rows s @ (n1 @ n2)"
    using n1 n2 by simp
  moreover have "\<forall>r\<in>set (n1 @ n2). P r" using n1 n2 by auto
  ultimately show ?case using n2(1) by auto
qed

lemma run_firstSeen_keep:
  assumes "firstSeen s a = Some t"
  shows "firstSeen (run p evs s) a = Some t"
  using assms by (induction evs arbitrary: s) (simp_all add: step_firstSeen_keep)

lemma run_rows_schema:
  "\<exists>new. csv_rows (run p evs s) = csv_rows s @ new \<and>
     (\<forall>r\<in>set new. length r = 14 \<and> r ! 4 = ''0'' \<and> r ! 11 = [] \<and> r ! 13 = ''BLE'')"
  using run_rows_invariant [where I = "\<lambda>_. True" and p = p and s = s and evs = evs
      and P = "\<lambda>r. length r = 14 \<and> r ! 4 = ''0'' \<and> r ! 11 = [] \<and> r ! 13 = ''BLE''"]
    step_rows_schema by blast

lemma run_rows_firstSeen:
  assumes "firstSeen s a = Some t"
  shows "\<exists>new. csv_rows (run p evs s) = csv_rows s @ new \<and>
     (\<forall>r\<in>set new. r ! 0 = a \<longrightarrow> r ! 3 = format_time t)"
  using run_rows_invariant [where I = "\<lambda>s. firstSeen s a = Some t" and p = p and s = s
      and evs = evs and P = "\<lambda>r. r ! 0 = a \<longrightarrow> r ! 3 = format_time t"]
    step_firstSeen_keep step_rows_firstSeen assms by blast

section \<open>Floats: integral values and truncation\<close>

lemma fmt_float_integral:
  "fmt_float 6 (Finite neg (v * 2 ^ k) k) =
     (if neg then ''-'' else []) @ dec_nat v @ ''.000000''"
  by (simp add: fmt_float_def Let_def render_simps)

lemma floor_dyadic: "\<lfloor>real n / 2 ^ k\<rfloor> = int (n div 2 ^ k)"
proof -
  have "\<lfloor>real n / real (2 ^ k)\<rfloor> = int (n div 2 ^ k)"
    by (rule floor_divide_of_nat_eq)
  then show ?thesis by simp
qed

lemma trunc_dyadic:
  assumes "float_val (Finite neg n k) = Some v"
  shows "(if 0 \<le> v then \<lfloor>v\<rfloor> else \<lceil>v\<rceil>) = (if neg then - int (n div 2 ^ k) else int (n div 2 ^ k))"
proof (cases neg)
  case False
  then have v: "v = real n / 2 ^ k" using assms by (simp add: float_val_def)
  then have "0 \<le> v" by simp
  then show ?thesis using False v by (simp add: floor_dyadic)
next
  case True
  then have v: "v = - (real n / 2 ^ k)" using assms by (simp add: float_val_def)
  show ?thesis
  proof (cases "0 \<le> v")
    case nonneg: True
    then have "real n / 2 ^ k \<le> 0" using v by simp
    moreover have "(0::real) < 2 ^ k" by simp
    ultimately have "n = 0" by (auto simp: divide_le_0_iff)
    then show ?thesis using True v by simp
  next
    case neg: False
    have "\<lceil>v\<rceil> = - \<lfloor>real n / 2 ^ k\<rfloor>" using v by (simp add: ceiling_minus)
    then show ?thesis using True neg by (simp add: floor_dyadic)
  qed
qed

lemma int_of_float64_trunc:
  assumes "float_val x = Some v"
    and "- (2 ^ (int_bits p - 1)) \<le> (if 0 \<le> v then \<lfloor>v\<rfloor> else \<lceil>v\<rceil>)"
    and "(if 0 \<le> v then \<lfloor>v\<rfloor> else \<lceil>v\<rceil>) < 2 ^ (int_bits p - 1)"
  shows "int_of_float64 p x = (if 0 \<le> v then \<lfloor>v\<rfloor> else \<lceil>v\<rceil>)"
proof (cases x)
  case (Finite neg n k)
  from trunc_dyadic [of neg n k v] assms(1) Finite
  have t: "(if 0 \<le> v then \<lfloor>v\<rfloor> else \<lceil>v\<rceil>) = (if neg then - int (n div 2 ^ k) else int (n div 2 ^ k))"
    by simp
  show ?thesis
    using assms(2,3) unfolding t Finite by (simp add: int_of_float64_def Let_def)
next
  case (Inf b)
  then show ?thesis using assms(1) by (simp add: float_val_def)
next
  case NaN
  then show ?thesis using assms(1) by (simp add: float_val_def)
qed

section \<open>The fix gate and the first-seen registry\<close>

text \<open>
  C1. A discovery event that finds no fix in the location snapshot (\<open>Fix\<close> false) is
  discarded: the callback changes nothing but standard output, where it prints one note;
  in particular no row is written. When the snapshot has a fix the callback appends exactly
  one row. So the log changes at a discovery event only when a fix exists at that time.
\<close>

theorem scan_callback_requires_fix:
  "(\<not> Fix (currentLocation s) \<longrightarrow>
      scan_callback p conn d now s =
        s\<lparr>stdout := stdout s @ [''No GPS fix, skipping device: '' @ Address d]\<rparr>
      \<and> csv_rows (scan_callback p conn d now s) = csv_rows s)
   \<and> (Fix (currentLocation s) \<longrightarrow>
        (\<exists>row. csv_rows (scan_callback p conn d now s) = csv_rows s @ [row]))
   \<and> (csv_rows (scan_callback p conn d now s) \<noteq> csv_rows s \<longrightarrow> Fix (currentLocation s))"
proof (cases "Fix (currentLocation s)")
  case True
  have "csv_rows (scan_callback p conn d now s) =
      csv_rows s @ [last (csv_rows (scan_callback p conn d now s))]"
    using scan_callback_rows [of p conn d now s] True by simp
  then have "\<exists>row. csv_rows (scan_callback p conn d now s) = csv_rows s @ [row]"
    by (rule exI)
  with True show ?thesis by simp
next
  case False
  then show ?thesis by (simp add: scan_callback_no_fix)
qed

theorem scan_callback_requires_fix_witness:
  "\<not> Fix (currentLocation (initial_state ''log.csv''))
   \<and> csv_rows (scan_callback amd64 (scenario_registry (Inr (VUint32 0x020C))) scenario_device
        scenario_time (initial_state ''log.csv'')) = [csv_header]
   \<and> Fix (currentLocation (tpvFilter scenario_report (initial_state ''log.csv'')))
   \<and> length (csv_rows (scan_callback amd64 (scenario_registry (Inr (VUint32 0x020C)))
        scenario_device scenario_time (tpvFilter scenario_report (initial_state ''log.csv'')))) = 2"
proof -
  let ?s0 = "initial_state ''log.csv''"
  let ?s1 = "tpvFilter scenario_report ?s0"
  let ?conn = "scenario_registry (Inr (VUint32 0x020C))"
  have nofix: "\<not> Fix (currentLocation ?s0)"
    by (simp add: initial_state_def zero_location_def)
  have hasfix: "Fix (currentLocation ?s1)"
    by (simp add: tpvFilter_location scenario_report_def word_le_nat_alt)
  have rows0: "csv_rows ?s0 = [csv_header]"
    by (simp add: initial_state_def)
  have rows1: "csv_rows ?s1 = [csv_header]"
    by (simp add: tpvFilter_rows initial_state_def)
  have "csv_rows (scan_callback amd64 ?conn scenario_device scenario_time ?s0) = csv_rows ?s0"
    using scan_callback_requires_fix [of ?s0 amd64 ?conn scenario_device scenario_time] nofix
    by blast
  then have a: "csv_rows (scan_callback amd64 ?conn scenario_device scenario_time ?s0) = [csv_header]"
    using rows0 by simp
  obtain row where
    "csv_rows (scan_callback amd64 ?conn scenario_device scenario_time ?s1) = csv_rows ?s1 @ [row]"
    using scan_callback_requires_fix [of ?s1 amd64 ?conn scenario_device scenario_time] hasfix
    by blast
  then have b: "length (csv_rows (scan_callback amd64 ?conn scenario_device scenario_time ?s1)) = 2"
    using rows1 by simp
  show ?thesis using nofix hasfix a b by blast
qed

text \<open>
  C3. The first-seen registry is write-once per address. Take a discovery event for a
  device at a time \<open>now\<close>, processed with a fix, and let \<open>t\<close> be the timestamp of the
  first touch of its address: the one already recorded, or \<open>now\<close> when the address is new.
  Then the registry holds \<open>t\<close> for the address after the event, the row of the event has
  FirstSeen \<open>format_time t\<close>, and after any further events the registry still holds \<open>t\<close>
  and every row they emit for that address has FirstSeen \<open>format_time t\<close>.
\<close>

theorem firstSeen_write_once:
  assumes "Fix (currentLocation s)"
    and "t = (case firstSeen s (Address d) of Some t0 \<Rightarrow> t0 | None \<Rightarrow> now)"
    and "s1 = scan_callback p conn d now s"
  shows "firstSeen s1 (Address d) = Some t
    \<and> last (csv_rows s1) ! 0 = Address d
    \<and> last (csv_rows s1) ! 3 = format_time t
    \<and> firstSeen (run p evs s1) (Address d) = Some t
    \<and> (\<forall>r \<in> set (drop (length (csv_rows s1)) (csv_rows (run p evs s1))).
          r ! 0 = Address d \<longrightarrow> r ! 3 = format_time t)"
proof -
  have fs: "firstSeen s1 (Address d) = Some t"
    using assms scan_callback_firstSeen_touch [of s p conn d now] by simp
  have row: "last (csv_rows s1) ! 0 = Address d" "last (csv_rows s1) ! 3 = format_time t"
    using assms scan_callback_row_schema(2) [of s p conn d now]
      scan_callback_row_firstSeen [of s p conn d now] by simp_all
  from run_rows_firstSeen [OF fs, of p evs] obtain new
    where new: "csv_rows (run p evs s1) = csv_rows s1 @ new"
      "\<forall>r\<in>set new. r ! 0 = Address d \<longrightarrow> r ! 3 = format_time t" by blast
  have "drop (length (csv_rows s1)) (csv_rows (run p evs s1)) = new"
    using new(1) by simp
  then show ?thesis
    using fs row run_firstSeen_keep [OF fs, of p evs] new(2) by simp
qed

theorem firstSeen_write_once_witness:
  "last (csv_rows (scan_callback amd64 (scenario_registry (Inr (VUint32 0x020C))) scenario_device
       scenario_time (tpvFilter scenario_report (initial_state ''log.csv'')))) ! 3 =
     ''2026-01-02 03:04:05''
   \<and> last (csv_rows (run amd64
       [Discovery (scenario_registry (Inr (VUint32 0x020C))) scenario_device
          (scenario_time\<lparr>Second := 10\<rparr>)]
       (scan_callback amd64 (scenario_registry (Inr (VUint32 0x020C))) scenario_device
          scenario_time (tpvFilter scenario_report (initial_state ''log.csv''))))) ! 3 =
     ''2026-01-02 03:04:05''"
proof -
  let ?conn = "scenario_registry (Inr (VUint32 0x020C))"
  let ?s = "tpvFilter scenario_report (initial_state ''log.csv'')"
  let ?s1 = "scan_callback amd64 ?conn scenario_device scenario_time ?s"
  let ?later = "scenario_time\<lparr>Second := 10\<rparr>"
  let ?s2 = "run amd64 [Discovery ?conn scenario_device ?later] ?s1"
  have hasfix: "Fix (currentLocation ?s)"
    by (simp add: tpvFilter_location scenario_report_def word_le_nat_alt)
  have unseen: "firstSeen ?s (Address scenario_device) = None"
    by (simp add: tpvFilter_firstSeen initial_state_def)
  have t: "scenario_time =
      (case firstSeen ?s (Address scenario_device) of Some t0 \<Rightarrow> t0 | None \<Rightarrow> scenario_time)"
    using unseen by simp
  note main = firstSeen_write_once [OF hasfix t refl,
      of amd64 ?conn "[Discovery ?conn scenario_device ?later]"]
  have fmt: "format_time scenario_time = ''2026-01-02 03:04:05''"
    by (simp add: format_time_def scenario_time_def render_simps)
  have hasfix1: "Fix (currentLocation ?s1)"
    using hasfix by (simp add: scan_callback_location)
  have rows2: "csv_rows ?s2 = csv_rows ?s1 @ [last (csv_rows ?s2)]"
    using scan_callback_rows [of amd64 ?conn scenario_device ?later ?s1] hasfix1 by simp
  have mac2: "last (csv_rows ?s2) ! 0 = Address scenario_device"
    using scan_callback_row_schema(2) [OF hasfix1, of amd64 ?conn scenario_device ?later] by simp
  have "drop (length (csv_rows ?s1)) (csv_rows ?s2) = [last (csv_rows ?s2)]"
    by (subst rows2) simp
  then have "last (csv_rows ?s2) \<in> set (drop (length (csv_rows ?s1)) (csv_rows ?s2))"
    by simp
  with main mac2 have "last (csv_rows ?s2) ! 3 = format_time scenario_time"
    by blast
  moreover from main have "last (csv_rows ?s1) ! 3 = format_time scenario_time"
    by blast
  ultimately show ?thesis using fmt by simp
qed

section \<open>The log schema\<close>

lemma startup_state: "startup env = Inr s0 \<Longrightarrow> s0 = initial_state (csvPath env)"
  by (simp add: startup_def split: sum.splits)

text \<open>
  C4. After a successful startup the first row of the log is exactly the 14 column names
  MAC, SSID, AuthMode, FirstSeen, Channel, Frequency, RSSI, CurrentLatitude,
  CurrentLongitude, AltitudeMeters, AccuracyMeters, RCOIs, MfgrId, Type, whatever the
  environment and the events of the run; every row has 14 fields, and every data row has
  Channel \<open>''0''\<close>, an empty RCOIs and Type \<open>''BLE''\<close>.
\<close>

theorem log_schema:
  assumes "startup env = Inr s0"
  shows "hd (csv_rows (run p evs s0)) =
      [''MAC'', ''SSID'', ''AuthMode'', ''FirstSeen'', ''Channel'', ''Frequency'', ''RSSI'',
       ''CurrentLatitude'', ''CurrentLongitude'', ''AltitudeMeters'', ''AccuracyMeters'',
       ''RCOIs'', ''MfgrId'', ''Type'']
    \<and> (\<forall>r \<in> set (csv_rows (run p evs s0)). length r = 14)
    \<and> (\<forall>r \<in> set (tl (csv_rows (run p evs s0))).
          r ! 4 = ''0'' \<and> r ! 11 = [] \<and> r ! 13 = ''BLE'')"
proof -
  have s0: "csv_rows s0 = [csv_header]"
    using startup_state [OF assms] by (simp add: initial_state_def)
  from run_rows_schema [of p evs s0] obtain new
    where new: "csv_rows (run p evs s0) = csv_rows s0 @ new"
      "\<forall>r\<in>set new. length r = 14 \<and> r ! 4 = ''0'' \<and> r ! 11 = [] \<and> r ! 13 = ''BLE''"
    by blast
  have rows: "csv_rows (run p evs s0) = csv_header # new"
    using new(1) s0 by simp
  have "length csv_header = 14" by (simp add: csv_header_def)
  then show ?thesis
    unfolding rows using new(2) by (simp add: csv_header_def)
qed

theorem log_schema_witness:
  "startup \<lparr>enable_err = None, dial_err = None, dbus_err = None, mkdir_err = None,
      create_err = None, csvPath = ''log.csv''\<rparr> = Inr (initial_state ''log.csv'')
   \<and> hd (csv_rows (run amd64
         [PositionReport scenario_report,
          Discovery (scenario_registry (Inr (VUint32 0x020C))) scenario_device scenario_time]
         (initial_state ''log.csv''))) =
      [''MAC'', ''SSID'', ''AuthMode'', ''FirstSeen'', ''Channel'', ''Frequency'', ''RSSI'',
       ''CurrentLatitude'', ''CurrentLongitude'', ''AltitudeMeters'', ''AccuracyMeters'',
       ''RCOIs'', ''MfgrId'', ''Type'']
   \<and> last (csv_rows (run amd64
         [PositionReport scenario_report,
          Discovery (scenario_registry (Inr (VUint32 0x020C))) scenario_device scenario_time]
         (initial_state ''log.csv''))) =
      [''AA:BB:CC:DD:EE:FF'', ''Pixel'', ''Smartphone [LE]'', ''2026-01-02 03:04:05'', ''0'',
       ''524'', ''-60'', ''37.000000'', ''-122.000000'', ''10'', ''5.000000'', [], ''224'',
       ''BLE'']
   \<and> length (last (csv_rows (run amd64
         [PositionReport scenario_report,
          Discovery (scenario_registry (Inr (VUint32 0x020C))) scenario_device scenario_time]
         (initial_state ''log.csv'')))) = 14"
proof -
  let ?env = "\<lparr>enable_err = None, dial_err = None, dbus_err = None, mkdir_err = None,
      create_err = None, csvPath = ''log.csv''\<rparr>"
  let ?evs = "[PositionReport scenario_report,
          Discovery (scenario_registry (Inr (VUint32 0x020C))) scenario_device scenario_time]"
  let ?rows = "csv_rows (run amd64 ?evs (initial_state ''log.csv''))"
  have st: "startup ?env = Inr (initial_state ''log.csv'')"
    by (simp add: startup_def must_def)
  note main = log_schema [OF st, of amd64 ?evs]
  have rows: "?rows =
      [csv_header,
       [''AA:BB:CC:DD:EE:FF'', ''Pixel'', ''Smartphone [LE]'', ''2026-01-02 03:04:05'', ''0'',
        ''524'', ''-60'', ''37.000000'', ''-122.000000'', ''10'', ''5.000000'', [], ''224'',
        ''BLE'']]"
    by (simp add: scan_callback_def tpvFilter_def initial_state_def scenario_report_def
        scenario_device_def scenario_time_def scenario_registry_def amd64_def getDeviceClass_def
        sanitize_def buildCapabilities_suffix deviceTypeLegend_def format_time_def fmt_float_def
        int_of_float64_def render_simps word_le_nat_alt zero_location_def Let_def)
  have "last ?rows \<in> set ?rows" unfolding rows by simp
  with main have "length (last ?rows) = 14" by blast
  moreover from main have "hd ?rows =
      [''MAC'', ''SSID'', ''AuthMode'', ''FirstSeen'', ''Channel'', ''Frequency'', ''RSSI'',
       ''CurrentLatitude'', ''CurrentLongitude'', ''AltitudeMeters'', ''AccuracyMeters'',
       ''RCOIs'', ''MfgrId'', ''Type'']" by blast
  moreover have "last ?rows =
       [''AA:BB:CC:DD:EE:FF'', ''Pixel'', ''Smartphone [LE]'', ''2026-01-02 03:04:05'', ''0'',
        ''524'', ''-60'', ''37.000000'', ''-122.000000'', ''10'', ''5.000000'', [], ''224'',
        ''BLE'']"
    unfolding rows by simp
  ultimately show ?thesis using st by blast
qed

section \<open>Class resolution: registry failures and the smartphone scenario\<close>

lemma getDeviceClass_default:
  assumes "\<forall>c. conn ''org.bluez'' (''/org/bluez/hci0/dev_'' @ sanitize addr)
      ''org.bluez.Device1.Class'' \<noteq> Inr (VUint32 c)"
  shows "getDeviceClass conn addr = 0"
proof (cases "conn ''org.bluez'' (''/org/bluez/hci0/dev_'' @ sanitize addr) ''org.bluez.Device1.Class''")
  case (Inl e)
  then show ?thesis by (simp add: getDeviceClass_def)
next
  case (Inr v)
  with assms have "\<forall>c. v \<noteq> VUint32 c" by simp
  then show ?thesis using Inr by (cases v) (simp_all add: getDeviceClass_def)
qed

lemma getDeviceClass_uint32:
  assumes "conn ''org.bluez'' (''/org/bluez/hci0/dev_'' @ sanitize addr)
      ''org.bluez.Device1.Class'' = Inr (VUint32 c)"
  shows "getDeviceClass conn addr = c"
  using assms by (simp add: getDeviceClass_def)

lemma misc_row_fields:
  "buildCapabilities 0 = ''Misc [LE]''" "dec_nat (unat ((0 :: 32 word) AND 0x1FFC)) = ''0''"
  by (simp_all add: buildCapabilities_suffix deviceTypeLegend_def render_simps)

text \<open>
  C6. When the registry lookup for a device fails or answers with anything but a
  \<^verbatim>\<open>uint32\<close>, \<open>getDeviceClass\<close> returns 0 (it has no error result). The row of such an
  event, processed with a fix, is appended as usual and has AuthMode \<open>''Misc [LE]''\<close> and
  Frequency \<open>''0''\<close>; a discovery event that follows is processed and its row appended.
\<close>

theorem registry_failure_degrades:
  assumes "\<forall>c. conn ''org.bluez'' (''/org/bluez/hci0/dev_'' @ sanitize (Address d))
      ''org.bluez.Device1.Class'' \<noteq> Inr (VUint32 c)"
  shows "getDeviceClass conn (Address d) = 0
    \<and> (Fix (currentLocation s) \<longrightarrow>
         csv_rows (scan_callback p conn d now s) =
           csv_rows s @ [last (csv_rows (scan_callback p conn d now s))]
         \<and> last (csv_rows (scan_callback p conn d now s)) ! 2 = ''Misc [LE]''
         \<and> last (csv_rows (scan_callback p conn d now s)) ! 5 = ''0''
         \<and> (\<exists>row. csv_rows (run p [Discovery conn d now, Discovery conn' d' now'] s) =
               csv_rows (scan_callback p conn d now s) @ [row]))"
proof -
  have zero: "getDeviceClass conn (Address d) = 0"
    using assms by (rule getDeviceClass_default)
  have "Fix (currentLocation s) \<Longrightarrow> ?thesis"
  proof -
    assume hasfix: "Fix (currentLocation s)"
    let ?s1 = "scan_callback p conn d now s"
    have rows: "csv_rows ?s1 = csv_rows s @ [last (csv_rows ?s1)]"
      using scan_callback_rows [of p conn d now s] hasfix by simp
    have auth: "last (csv_rows ?s1) ! 2 = ''Misc [LE]''"
      using scan_callback_row_class(1) [OF hasfix, of p conn d now] zero misc_row_fields(1)
      by simp
    have freq: "last (csv_rows ?s1) ! 5 = ''0''"
      using scan_callback_row_class(2) [OF hasfix, of p conn d now] zero misc_row_fields(2)
      by simp
    have hasfix1: "Fix (currentLocation ?s1)"
      using hasfix by (simp add: scan_callback_location)
    have "csv_rows (scan_callback p conn' d' now' ?s1) =
        csv_rows ?s1 @ [last (csv_rows (scan_callback p conn' d' now' ?s1))]"
      using scan_callback_rows [of p conn' d' now' ?s1] hasfix1 by simp
    then have "csv_rows (run p [Discovery conn d now, Discovery conn' d' now'] s) =
        csv_rows ?s1 @ [last (csv_rows (scan_callback p conn' d' now' ?s1))]"
      by simp
    then have "\<exists>row. csv_rows (run p [Discovery conn d now, Discovery conn' d' now'] s) =
        csv_rows ?s1 @ [row]"
      by (rule exI)
    with zero rows auth freq show ?thesis by blast
  qed
  then show ?thesis using zero by blast
qed

theorem registry_failure_degrades_witness:
  "getDeviceClass (scenario_registry (Inl ''org.freedesktop.DBus.Error.UnknownObject''))
      (Address scenario_device) = 0
   \<and> last (csv_rows (scan_callback amd64
        (scenario_registry (Inl ''org.freedesktop.DBus.Error.UnknownObject'')) scenario_device
        scenario_time (tpvFilter scenario_report (initial_state ''log.csv'')))) ! 2 = ''Misc [LE]''
   \<and> last (csv_rows (scan_callback amd64
        (scenario_registry (Inl ''org.freedesktop.DBus.Error.UnknownObject'')) scenario_device
        scenario_time (tpvFilter scenario_report (initial_state ''log.csv'')))) ! 5 = ''0''
   \<and> getDeviceClass (scenario_registry (Inr (VString ''0x020C''))) (Address scenario_device) = 0
   \<and> last (csv_rows (scan_callback amd64 (scenario_registry (Inr (VString ''0x020C'')))
        scenario_device scenario_time
        (tpvFilter scenario_report (initial_state ''log.csv'')))) ! 2 = ''Misc [LE]''"
proof -
  let ?err = "scenario_registry (Inl ''org.freedesktop.DBus.Error.UnknownObject'')"
  let ?str = "scenario_registry (Inr (VString ''0x020C''))"
  let ?s = "tpvFilter scenario_report (initial_state ''log.csv'')"
  have hasfix: "Fix (currentLocation ?s)"
    by (simp add: tpvFilter_location scenario_report_def word_le_nat_alt)
  have e: "\<forall>c. ?err ''org.bluez'' (''/org/bluez/hci0/dev_'' @ sanitize (Address scenario_device))
      ''org.bluez.Device1.Class'' \<noteq> Inr (VUint32 c)"
    by (simp add: scenario_registry_def scenario_device_def sanitize_def)
  have m: "\<forall>c. ?str ''org.bluez'' (''/org/bluez/hci0/dev_'' @ sanitize (Address scenario_device))
      ''org.bluez.Device1.Class'' \<noteq> Inr (VUint32 c)"
    by (simp add: scenario_registry_def scenario_device_def sanitize_def)
  from registry_failure_degrades [where conn = ?err and d = scenario_device and s = ?s
        and p = amd64 and now = scenario_time, OF e]
    registry_failure_degrades [where conn = ?str and d = scenario_device and s = ?s
        and p = amd64 and now = scenario_time, OF m]
    hasfix
  show ?thesis by blast
qed

text \<open>
  C7. Let the stored location come from a mode-3 report with latitude 37.0 and longitude
  -122.0 (whatever its altitude and error estimate), and let a discovery event arrive for a
  device whose registry class is 0x020C and whose RSSI is -60. Then the callback appends a
  row with AuthMode \<open>''Smartphone [LE]''\<close>, Frequency \<open>''524''\<close>, RSSI \<open>''-60''\<close>,
  CurrentLatitude \<open>''37.000000''\<close> and CurrentLongitude \<open>''-122.000000''\<close>.
\<close>

theorem scenario_smartphone_row:
  assumes "Mode report = 3"
    and "Lat report = Finite False (37 * 2 ^ k1) k1"
    and "Lon report = Finite True (122 * 2 ^ k2) k2"
    and "conn ''org.bluez'' (''/org/bluez/hci0/dev_'' @ sanitize (Address d))
      ''org.bluez.Device1.Class'' = Inr (VUint32 0x020C)"
    and "RSSI d = - 60"
    and "s1 = scan_callback p conn d now (tpvFilter report s)"
  shows "csv_rows s1 = csv_rows s @ [last (csv_rows s1)]
    \<and> last (csv_rows s1) ! 2 = ''Smartphone [LE]''
    \<and> last (csv_rows s1) ! 5 = ''524''
    \<and> last (csv_rows s1) ! 6 = ''-60''
    \<and> last (csv_rows s1) ! 7 = ''37.000000''
    \<and> last (csv_rows s1) ! 8 = ''-122.000000''"
proof -
  let ?s = "tpvFilter report s"
  have hasfix: "Fix (currentLocation ?s)"
    using assms(1) by (simp add: tpvFilter_location word_le_nat_alt)
  have cls: "getDeviceClass conn (Address d) = 0x020C"
    using assms(4) by (rule getDeviceClass_uint32)
  have rows: "csv_rows s1 = csv_rows s @ [last (csv_rows s1)]"
    using scan_callback_rows [of p conn d now ?s] hasfix assms(6) by (simp add: tpvFilter_rows)
  have auth: "last (csv_rows s1) ! 2 = ''Smartphone [LE]''"
    using scan_callback_row_class(1) [OF hasfix, of p conn d now] cls assms(6)
    by (simp add: buildCapabilities_suffix deviceTypeLegend_def)
  have freq: "last (csv_rows s1) ! 5 = ''524''"
    using scan_callback_row_class(2) [OF hasfix, of p conn d now] cls assms(6)
    by (simp add: render_simps)
  have rssi: "last (csv_rows s1) ! 6 = ''-60''"
    using scan_callback_row_signal [OF hasfix, of p conn d now] assms(5,6)
    by (simp add: render_simps)
  have lat: "last (csv_rows s1) ! 7 = ''37.000000''"
    using scan_callback_row_position(1) [OF hasfix, of p conn d now] assms(2,6)
      fmt_float_integral [of False 37 k1]
    by (simp add: tpvFilter_location render_simps)
  have lon: "last (csv_rows s1) ! 8 = ''-122.000000''"
    using scan_callback_row_position(2) [OF hasfix, of p conn d now] assms(3,6)
      fmt_float_integral [of True 122 k2]
    by (simp add: tpvFilter_location render_simps)
  show ?thesis using rows auth freq rssi lat lon by blast
qed

theorem scenario_smartphone_row_witness:
  "last (csv_rows (scan_callback amd64 (scenario_registry (Inr (VUint32 0x020C)))
       scenario_device scenario_time (tpvFilter scenario_report (initial_state ''log.csv'')))) ! 2 =
     ''Smartphone [LE]''
   \<and> last (csv_rows (scan_callback amd64 (scenario_registry (Inr (VUint32 0x020C)))
       scenario_device scenario_time (tpvFilter scenario_report (initial_state ''log.csv'')))) ! 5 =
     ''524''
   \<and> last (csv_rows (scan_callback amd64 (scenario_registry (Inr (VUint32 0x020C)))
       scenario_device scenario_time (tpvFilter scenario_report (initial_state ''log.csv'')))) ! 7 =
     ''37.000000''
   \<and> last (csv_rows (scan_callback amd64 (scenario_registry (Inr (VUint32 0x020C)))
       scenario_device scenario_time (tpvFilter scenario_report (initial_state ''log.csv'')))) ! 8 =
     ''-122.000000''"
proof -
  let ?conn = "scenario_registry (Inr (VUint32 0x020C))"
  have mode: "Mode scenario_report = 3" by (simp add: scenario_report_def)
  have lat: "Lat scenario_report = Finite False (37 * 2 ^ 0) 0" by (simp add: scenario_report_def)
  have lon: "Lon scenario_report = Finite True (122 * 2 ^ 0) 0" by (simp add: scenario_report_def)
  have reg: "?conn ''org.bluez'' (''/org/bluez/hci0/dev_'' @ sanitize (Address scenario_device))
      ''org.bluez.Device1.Class'' = Inr (VUint32 0x020C)"
    by (simp add: scenario_registry_def scenario_device_def sanitize_def)
  have rssi: "RSSI scenario_device = - 60" by (simp add: scenario_device_def)
  from scenario_smartphone_row [where conn = ?conn and d = scenario_device
      and report = scenario_report and p = amd64 and now = scenario_time
      and s = "initial_state ''log.csv''", OF mode lat lon reg rssi refl]
  show ?thesis by blast
qed

section \<open>A failed scan start\<close>

lemma main_steps_loop: "main_steps n r (AtLoop, tr) = (AtLoop, tr)"
  by (induction n) simp_all

text \<open>
  C9, as the code has it. When \<^verbatim>\<open>adapter.Scan\<close> returns an error, the error is printed
  on standard output (\<open>failed to start scan: \<close> and the error), nothing else of the state
  changes, and \<^verbatim>\<open>main\<close> then runs the empty loop \<^verbatim>\<open>for {}\<close>: it never returns, so the
  process does not exit by itself. The scan is not started again: after its first
  operation \<^verbatim>\<open>main\<close> has called \<^verbatim>\<open>adapter.Scan\<close> once, from its second operation on it
  is in the loop with exactly that one call and the one printed line behind it, and at no
  time has it called \<^verbatim>\<open>adapter.Scan\<close> more than once.
\<close>

theorem scan_failure_reported_then_spins:
  "stdout (report_scan_error (Some e) s) = stdout s @ [''failed to start scan: '' @ e]
   \<and> csv_rows (report_scan_error (Some e) s) = csv_rows s
   \<and> firstSeen (report_scan_error (Some e) s) = firstSeen s
   \<and> currentLocation (report_scan_error (Some e) s) = currentLocation s
   \<and> main_after_scan (Some e) s = None
   \<and> main_steps 1 (Some e) (AtScan, []) = (AtErrCheck (Some e), [ScanCall])
   \<and> main_steps (n + 2) (Some e) (AtScan, []) =
       (AtLoop, [ScanCall, Println (''failed to start scan: '' @ e)])
   \<and> count_list (snd (main_steps n (Some e) (AtScan, []))) ScanCall \<le> 1"
proof -
  have state: "stdout (report_scan_error (Some e) s) = stdout s @ [''failed to start scan: '' @ e]
     \<and> csv_rows (report_scan_error (Some e) s) = csv_rows s
     \<and> firstSeen (report_scan_error (Some e) s) = firstSeen s
     \<and> currentLocation (report_scan_error (Some e) s) = currentLocation s"
    by (simp add: report_scan_error_def)
  have spin: "main_after_scan (Some e) s = None"
    by (simp add: main_after_scan_def busy_loop_None)
  have one: "main_steps 1 (Some e) (AtScan, []) = (AtErrCheck (Some e), [ScanCall])"
    by simp
  have later: "main_steps (k + 2) (Some e) (AtScan, []) =
      (AtLoop, [ScanCall, Println (''failed to start scan: '' @ e)])" for k
    by (simp add: main_steps_loop)
  have "count_list (snd (main_steps n (Some e) (AtScan, []))) ScanCall \<le> 1"
  proof (cases n)
    case 0
    then show ?thesis by simp
  next
    case (Suc m)
    show ?thesis
    proof (cases m)
      case 0
      with Suc show ?thesis by simp
    next
      case (Suc k)
      with \<open>n = Suc m\<close> have "n = k + 2" by simp
      then show ?thesis using later [of k] by simp
    qed
  qed
  with state spin one later [of n] show ?thesis by blast
qed

text \<open>
  So the process does not exit after a failed scan start: with the error text
  \<open>''adapter not powered''\<close>, right after startup, \<^verbatim>\<open>main\<close> does not return.
\<close>

theorem scan_failure_exit_counterexample:
  "main_after_scan (Some ''adapter not powered'') (initial_state ''log.csv'') = None"
  by (simp add: main_after_scan_def busy_loop_None)

section \<open>The altitude column\<close>

text \<open>
  C10, as the code has it. For a snapshot with a fix whose altitude is a finite value \<open>v\<close>
  such that \<open>v\<close> truncated toward zero fits the platform's \<^verbatim>\<open>int\<close>, the AltitudeMeters
  field is the decimal rendering of that truncation (of \<open>\<lfloor>v\<rfloor>\<close> when \<open>v\<close> is not
  negative, of \<open>\<lceil>v\<rceil>\<close> when it is), not of the nearest integer.
\<close>

theorem altitude_truncated:
  assumes "Fix (currentLocation s)"
    and "float_val (Altitude (currentLocation s)) = Some v"
    and "- (2 ^ (int_bits p - 1)) \<le> (if 0 \<le> v then \<lfloor>v\<rfloor> else \<lceil>v\<rceil>)"
    and "(if 0 \<le> v then \<lfloor>v\<rfloor> else \<lceil>v\<rceil>) < 2 ^ (int_bits p - 1)"
  shows "last (csv_rows (scan_callback p conn d now s)) ! 9 =
    dec_int (if 0 \<le> v then \<lfloor>v\<rfloor> else \<lceil>v\<rceil>)"
  using scan_callback_row_position(3) [OF assms(1), of p conn d now]
    int_of_float64_trunc [OF assms(2,3,4)] by simp

theorem altitude_truncated_witness:
  "last (csv_rows (scan_callback amd64 (scenario_registry (Inr (VUint32 0x020C))) scenario_device
       scenario_time
       (tpvFilter (scenario_report\<lparr>Alt := Finite False 6136154492292301 49\<rparr>)
          (initial_state ''log.csv'')))) ! 9 = ''10''
   \<and> last (csv_rows (scan_callback amd64 (scenario_registry (Inr (VUint32 0x020C))) scenario_device
       scenario_time
       (tpvFilter (scenario_report\<lparr>Alt := Finite True 4165829655317709 50\<rparr>)
          (initial_state ''log.csv'')))) ! 9 = ''-3''"
proof -
  let ?conn = "scenario_registry (Inr (VUint32 0x020C))"
  let ?up = "tpvFilter (scenario_report\<lparr>Alt := Finite False 6136154492292301 49\<rparr>)
      (initial_state ''log.csv'')"
  let ?down = "tpvFilter (scenario_report\<lparr>Alt := Finite True 4165829655317709 50\<rparr>)
      (initial_state ''log.csv'')"
  define u :: real where "u = real 6136154492292301 / 2 ^ 49"
  define w :: real where "w = - (real 4165829655317709 / 2 ^ 50)"
  have fix_up: "Fix (currentLocation ?up)"
    by (simp add: tpvFilter_location scenario_report_def word_le_nat_alt)
  have fix_down: "Fix (currentLocation ?down)"
    by (simp add: tpvFilter_location scenario_report_def word_le_nat_alt)
  have val_up: "float_val (Altitude (currentLocation ?up)) = Some u"
    by (simp add: tpvFilter_location float_val_def u_def)
  have val_down: "float_val (Altitude (currentLocation ?down)) = Some w"
    by (simp add: tpvFilter_location float_val_def w_def)
  have "float_val (Finite False 6136154492292301 49) = Some u"
    by (simp add: float_val_def u_def)
  from trunc_dyadic [OF this]
  have tu: "(if 0 \<le> u then \<lfloor>u\<rfloor> else \<lceil>u\<rceil>) = 10" by simp
  have "float_val (Finite True 4165829655317709 50) = Some w"
    by (simp add: float_val_def w_def)
  from trunc_dyadic [OF this]
  have tw: "(if 0 \<le> w then \<lfloor>w\<rfloor> else \<lceil>w\<rceil>) = - 3" by simp
  have "last (csv_rows (scan_callback amd64 ?conn scenario_device scenario_time ?up)) ! 9 =
      dec_int (if 0 \<le> u then \<lfloor>u\<rfloor> else \<lceil>u\<rceil>)"
    by (rule altitude_truncated [OF fix_up val_up]) (simp_all add: tu amd64_def)
  then have a: "last (csv_rows (scan_callback amd64 ?conn scenario_device scenario_time ?up)) ! 9 =
      ''10''"
    unfolding tu by (simp add: render_simps)
  have "last (csv_rows (scan_callback amd64 ?conn scenario_device scenario_time ?down)) ! 9 =
      dec_int (if 0 \<le> w then \<lfloor>w\<rfloor> else \<lceil>w\<rceil>)"
    by (rule altitude_truncated [OF fix_down val_down]) (simp_all add: tw amd64_def)
  then have b: "last (csv_rows (scan_callback amd64 ?conn scenario_device scenario_time ?down)) ! 9 =
      ''-3''"
    unfolding tw by (simp add: render_simps)
  show ?thesis using a b by blast
qed

text \<open>
  Without the condition on the range the field is not the truncation: on a 64-bit platform
  whose conversion gives the smallest \<^verbatim>\<open>int\<close> for an unrepresentable value, the altitude
  \<open>10 ^ 19\<close> (a finite double, above every \<^verbatim>\<open>int\<close>) is logged as
  \<open>''-9223372036854775808''\<close>, where its truncation reads \<open>''10000000000000000000''\<close>.
\<close>

theorem altitude_out_of_range_counterexample:
  "float_val (Altitude (currentLocation
       (tpvFilter (scenario_report\<lparr>Alt := Finite False 10000000000000000000 0\<rparr>)
          (initial_state ''log.csv'')))) = Some 10000000000000000000
   \<and> last (csv_rows (scan_callback amd64 (scenario_registry (Inr (VUint32 0x020C))) scenario_device
       scenario_time
       (tpvFilter (scenario_report\<lparr>Alt := Finite False 10000000000000000000 0\<rparr>)
          (initial_state ''log.csv'')))) ! 9 = ''-9223372036854775808''
   \<and> dec_int \<lfloor>10000000000000000000 :: real\<rfloor> = ''10000000000000000000''
   \<and> last (csv_rows (scan_callback amd64 (scenario_registry (Inr (VUint32 0x020C))) scenario_device
       scenario_time
       (tpvFilter (scenario_report\<lparr>Alt := Finite False 10000000000000000000 0\<rparr>)
          (initial_state ''log.csv'')))) ! 9 \<noteq> dec_int \<lfloor>10000000000000000000 :: real\<rfloor>"
proof -
  let ?s = "tpvFilter (scenario_report\<lparr>Alt := Finite False 10000000000000000000 0\<rparr>)
      (initial_state ''log.csv'')"
  let ?row = "last (csv_rows (scan_callback amd64 (scenario_registry (Inr (VUint32 0x020C)))
      scenario_device scenario_time ?s))"
  have hasfix: "Fix (currentLocation ?s)"
    by (simp add: tpvFilter_location scenario_report_def word_le_nat_alt)
  have val: "float_val (Altitude (currentLocation ?s)) = Some 10000000000000000000"
    by (simp add: tpvFilter_location float_val_def)
  have "int_of_float64 amd64 (Altitude (currentLocation ?s)) = - (2 ^ 63)"
    by (simp add: tpvFilter_location int_of_float64_def amd64_def)
  then have "?row ! 9 = dec_int (- (2 ^ 63))"
    using scan_callback_row_position(3) [OF hasfix, of amd64
        "scenario_registry (Inr (VUint32 0x020C))" scenario_device scenario_time]
    by simp
  moreover have "dec_int (- (2 ^ 63)) = ''-9223372036854775808''"
    by (simp add: render_simps)
  ultimately have field: "?row ! 9 = ''-9223372036854775808''" by simp
  have trunc: "dec_int \<lfloor>10000000000000000000 :: real\<rfloor> = ''10000000000000000000''"
    by (simp add: render_simps)
  have "?row ! 9 \<noteq> dec_int \<lfloor>10000000000000000000 :: real\<rfloor>"
    unfolding field trunc by simp
  with val field trunc show ?thesis by blast
qed

section \<open>The lock discipline\<close>

lemma tpvFilter_location_of: "currentLocation (tpvFilter r s) = location_of r"
  by (simp add: tpvFilter_location location_of_def)

lemma moved_all_fields: "moved all_fields a b"
proof -
  have "f \<in> set all_fields" for f by (cases f) (simp_all add: all_fields_def)
  then show ?thesis by (simp add: moved_def)
qed

lemma moved_Nil: "moved [] a b \<Longrightarrow> a = b"
proof -
  assume m: "moved [] a b"
  have "agree_on FFix a b" "agree_on FLatitude a b" "agree_on FLongitude a b"
    "agree_on FAltitude a b" "agree_on FError a b"
    using m by (simp_all add: moved_def)
  then show "a = b" by simp
qed

lemma agree_on_copy_same: "agree_on f (copy_field f src dst) src"
  by (cases f) simp_all

lemma agree_on_copy_other: "g \<noteq> f \<Longrightarrow> agree_on g (copy_field f src dst) x = agree_on g dst x"
  by (cases f; cases g) simp_all

lemma moved_load: "moved (f # fs) loc l \<Longrightarrow> moved fs (copy_field f l loc) l"
  unfolding moved_def
proof (intro allI impI)
  fix g
  assume m: "\<forall>h. h \<notin> set (f # fs) \<longrightarrow> agree_on h loc l" and g: "g \<notin> set fs"
  show "agree_on g (copy_field f l loc) l"
  proof (cases "g = f")
    case True
    then show ?thesis by (simp add: agree_on_copy_same)
  next
    case False
    with m g have "agree_on g loc l" by simp
    with False show ?thesis by (simp add: agree_on_copy_other)
  qed
qed

lemma moved_store: "moved (f # fs) l t \<Longrightarrow> moved fs (copy_field f t l) t"
  by (rule moved_load)

lemma from_one_update_Cons: "from_one_update rs l \<Longrightarrow> from_one_update (r # rs) l"
  by (auto simp: from_one_update_def)

lemma from_one_update_issued: "r \<in> set rs \<Longrightarrow> from_one_update rs (location_of r)"
  by (simp add: from_one_update_def)

lemma lock_invariantI:
  assumes "\<And>i. holds_lock (goroutines c i) \<Longrightarrow> locked c"
    and "\<And>i j. holds_lock (goroutines c i) \<Longrightarrow> holds_lock (goroutines c j) \<Longrightarrow> i = j"
    and "(\<And>i. \<not> is_updating (goroutines c i)) \<Longrightarrow> from_one_update (issued c) (location c)"
    and "\<And>i report fs. goroutines c i = Updating report fs \<Longrightarrow>
          report \<in> set (issued c) \<and> moved fs (location c) (location_of report)"
    and "\<And>i report. goroutines c i = UpdateWaiting report \<Longrightarrow> report \<in> set (issued c)"
    and "\<And>i loc fs. goroutines c i = Reading loc fs \<Longrightarrow> moved fs loc (location c)"
    and "\<And>loc. loc \<in> set (snapshots c) \<Longrightarrow> from_one_update (issued c) loc"
  shows "lock_invariant c"
  unfolding lock_invariant_def using assms by blast

lemma lock_invariantD:
  assumes "lock_invariant c"
  shows "holds_lock (goroutines c i) \<Longrightarrow> locked c"
    and "holds_lock (goroutines c i) \<Longrightarrow> holds_lock (goroutines c j) \<Longrightarrow> i = j"
    and "(\<And>i. \<not> is_updating (goroutines c i)) \<Longrightarrow> from_one_update (issued c) (location c)"
    and "goroutines c i = Updating report fs \<Longrightarrow>
          report \<in> set (issued c) \<and> moved fs (location c) (location_of report)"
    and "goroutines c i = UpdateWaiting report \<Longrightarrow> report \<in> set (issued c)"
    and "goroutines c i = Reading loc fs \<Longrightarrow> moved fs loc (location c)"
    and "loc \<in> set (snapshots c) \<Longrightarrow> from_one_update (issued c) loc"
  using assms unfolding lock_invariant_def by blast+

lemma is_updating_holds_lock: "is_updating g \<Longrightarrow> holds_lock g"
  by (cases g) simp_all

lemma lock_invariant_start: "lock_invariant start_state"
  by (simp add: lock_invariant_def start_state_def from_one_update_def)

lemma perform_StartUpdate_invariant:
  assumes inv: "lock_invariant c"
  shows "lock_invariant (perform (StartUpdate i r) c)"
proof (cases "goroutines c i = Idle")
  case False
  then have "perform (StartUpdate i r) c = c" by (cases "goroutines c i") simp_all
  with inv show ?thesis by simp
next
  case True
  then have p: "perform (StartUpdate i r) c =
      c\<lparr>goroutines := (goroutines c)(i := UpdateWaiting r), issued := r # issued c\<rparr>"
    by simp
  note D = lock_invariantD [OF inv]
  show ?thesis
    unfolding p
  proof (rule lock_invariantI)
    show "from_one_update
        (issued (c\<lparr>goroutines := (goroutines c)(i := UpdateWaiting r), issued := r # issued c\<rparr>))
        (location (c\<lparr>goroutines := (goroutines c)(i := UpdateWaiting r), issued := r # issued c\<rparr>))"
      if "\<And>j. \<not> is_updating (goroutines
        (c\<lparr>goroutines := (goroutines c)(i := UpdateWaiting r), issued := r # issued c\<rparr>) j)"
    proof -
      have "\<not> is_updating (goroutines c j)" for j
        using that [of j] True by (cases "j = i") simp_all
      then have "from_one_update (issued c) (location c)" by (rule D(3))
      then show ?thesis by (simp add: from_one_update_Cons)
    qed
  qed (use D True in \<open>auto simp: from_one_update_Cons split: if_splits\<close>)
qed

lemma perform_StartRead_invariant:
  assumes inv: "lock_invariant c"
  shows "lock_invariant (perform (StartRead i l) c)"
proof (cases "goroutines c i = Idle")
  case False
  then have "perform (StartRead i l) c = c" by (cases "goroutines c i") simp_all
  with inv show ?thesis by simp
next
  case True
  define c' where "c' = perform (StartRead i l) c"
  have comps: "locked c' = locked c" "location c' = location c"
    "goroutines c' = (goroutines c)(i := ReadWaiting l)" "issued c' = issued c"
    "snapshots c' = snapshots c"
    using True by (simp_all add: c'_def)
  note D = lock_invariantD [OF inv]
  have "lock_invariant c'"
  proof (rule lock_invariantI)
    show "from_one_update (issued c') (location c')" if "\<And>j. \<not> is_updating (goroutines c' j)"
    proof -
      have "\<not> is_updating (goroutines c j)" for j
        using that [of j] True by (cases "j = i") (simp_all add: comps)
      then show ?thesis unfolding comps by (rule D(3))
    qed
  qed (use D True in \<open>auto simp: comps split: if_splits\<close>)
  then show ?thesis by (simp add: c'_def)
qed

lemma sole_holder:
  assumes "lock_invariant c" and "holds_lock (goroutines c i)" and "j \<noteq> i"
  shows "\<not> holds_lock (goroutines c j)" and "\<not> is_updating (goroutines c j)"
  using lock_invariantD(2) [OF assms(1), of i j] assms(2,3) is_updating_holds_lock by blast+

lemma free_lock:
  assumes "lock_invariant c" and "\<not> locked c"
  shows "\<not> holds_lock (goroutines c j)" and "\<not> is_updating (goroutines c j)"
  using lock_invariantD(1) [OF assms(1), of j] assms(2) is_updating_holds_lock by blast+

lemma acquire_update_invariant:
  assumes inv: "lock_invariant c" and g: "goroutines c i = UpdateWaiting r" and free: "\<not> locked c"
  shows "lock_invariant (c\<lparr>locked := True, goroutines := (goroutines c)(i := Updating r all_fields)\<rparr>)"
    (is "lock_invariant ?c'")
proof (rule lock_invariantI)
  note D = lock_invariantD [OF inv]
  note F = free_lock [OF inv free]
  show "holds_lock (goroutines ?c' j) \<Longrightarrow> locked ?c'" for j by simp
  show "holds_lock (goroutines ?c' j) \<Longrightarrow> holds_lock (goroutines ?c' k) \<Longrightarrow> j = k" for j k
    using F(1) by (auto split: if_splits)
  show "from_one_update (issued ?c') (location ?c')" if "\<And>j. \<not> is_updating (goroutines ?c' j)"
    using that [of i] by simp
  show "report \<in> set (issued ?c') \<and> moved fs (location ?c') (location_of report)"
    if "goroutines ?c' j = Updating report fs" for j report fs
    using that D(4) [of j report fs] D(5) [OF g] moved_all_fields
    by (auto split: if_splits)
  show "report \<in> set (issued ?c')" if "goroutines ?c' j = UpdateWaiting report" for j report
    using that D(5) [of j report] by (auto split: if_splits)
  show "moved fs loc (location ?c')" if "goroutines ?c' j = Reading loc fs" for j loc fs
    using that D(6) [of j loc fs] by (auto split: if_splits)
  show "from_one_update (issued ?c') loc" if "loc \<in> set (snapshots ?c')" for loc
    using that D(7) [of loc] by simp
qed

lemma store_invariant:
  assumes inv: "lock_invariant c" and g: "goroutines c i = Updating r (f # fs)"
  shows "lock_invariant (c\<lparr>location := copy_field f (location_of r) (location c),
      goroutines := (goroutines c)(i := Updating r fs)\<rparr>)"
    (is "lock_invariant ?c'")
proof (rule lock_invariantI)
  note D = lock_invariantD [OF inv]
  have h: "holds_lock (goroutines c i)" using g by simp
  note S = sole_holder [OF inv h]
  show "holds_lock (goroutines ?c' j) \<Longrightarrow> locked ?c'" for j
    using D(1) [OF h] by simp
  show "holds_lock (goroutines ?c' j) \<Longrightarrow> holds_lock (goroutines ?c' k) \<Longrightarrow> j = k" for j k
    using S(1) by (auto split: if_splits)
  show "from_one_update (issued ?c') (location ?c')" if "\<And>j. \<not> is_updating (goroutines ?c' j)"
    using that [of i] by simp
  show "report \<in> set (issued ?c') \<and> moved fs' (location ?c') (location_of report)"
    if "goroutines ?c' j = Updating report fs'" for j report fs'
  proof (cases "j = i")
    case True
    with that have "report = r" "fs' = fs" by simp_all
    moreover from D(4) [OF g] have "r \<in> set (issued c)" "moved (f # fs) (location c) (location_of r)"
      by simp_all
    ultimately show ?thesis by (simp add: moved_store)
  next
    case False
    with that have "holds_lock (goroutines c j)" by simp
    with S(1) [OF False] show ?thesis by simp
  qed
  show "report \<in> set (issued ?c')" if "goroutines ?c' j = UpdateWaiting report" for j report
    using that D(5) [of j report] by (auto split: if_splits)
  show "moved fs' loc (location ?c')" if "goroutines ?c' j = Reading loc fs'" for j loc fs'
  proof (cases "j = i")
    case True
    with that show ?thesis by simp
  next
    case False
    with that have "holds_lock (goroutines c j)" by simp
    with S(1) [OF False] show ?thesis by simp
  qed
  show "from_one_update (issued ?c') loc" if "loc \<in> set (snapshots ?c')" for loc
    using that D(7) [of loc] by simp
qed

lemma release_update_invariant:
  assumes inv: "lock_invariant c" and g: "goroutines c i = Updating r []"
  shows "lock_invariant (c\<lparr>locked := False, goroutines := (goroutines c)(i := Idle)\<rparr>)"
    (is "lock_invariant ?c'")
proof (rule lock_invariantI)
  note D = lock_invariantD [OF inv]
  have h: "holds_lock (goroutines c i)" using g by simp
  note S = sole_holder [OF inv h]
  have nobody: "\<not> holds_lock (goroutines ?c' j)" for j
    using S(1) [of j] by (cases "j = i") simp_all
  show "holds_lock (goroutines ?c' j) \<Longrightarrow> locked ?c'" for j
    using nobody by blast
  show "holds_lock (goroutines ?c' j) \<Longrightarrow> holds_lock (goroutines ?c' k) \<Longrightarrow> j = k" for j k
    using nobody by blast
  show "from_one_update (issued ?c') (location ?c')"
  proof -
    from D(4) [OF g] have "r \<in> set (issued c)" "moved [] (location c) (location_of r)"
      by simp_all
    then have "location c = location_of r" "from_one_update (issued c) (location_of r)"
      by (simp_all add: moved_Nil from_one_update_issued)
    then show ?thesis by simp
  qed
  show "report \<in> set (issued ?c') \<and> moved fs (location ?c') (location_of report)"
    if "goroutines ?c' j = Updating report fs" for j report fs
    using that nobody [of j] by simp
  show "report \<in> set (issued ?c')" if "goroutines ?c' j = UpdateWaiting report" for j report
    using that D(5) [of j report] by (auto split: if_splits)
  show "moved fs loc (location ?c')" if "goroutines ?c' j = Reading loc fs" for j loc fs
    using that nobody [of j] by simp
  show "from_one_update (issued ?c') loc" if "loc \<in> set (snapshots ?c')" for loc
    using that D(7) [of loc] by simp
qed

lemma acquire_read_invariant:
  assumes inv: "lock_invariant c" and g: "goroutines c i = ReadWaiting l" and free: "\<not> locked c"
  shows "lock_invariant (c\<lparr>locked := True, goroutines := (goroutines c)(i := Reading l all_fields)\<rparr>)"
    (is "lock_invariant ?c'")
proof (rule lock_invariantI)
  note D = lock_invariantD [OF inv]
  note F = free_lock [OF inv free]
  show "holds_lock (goroutines ?c' j) \<Longrightarrow> locked ?c'" for j by simp
  show "holds_lock (goroutines ?c' j) \<Longrightarrow> holds_lock (goroutines ?c' k) \<Longrightarrow> j = k" for j k
    using F(1) by (auto split: if_splits)
  show "from_one_update (issued ?c') (location ?c')"
  proof -
    have "from_one_update (issued c) (location c)" using F(2) by (rule D(3))
    then show ?thesis by simp
  qed
  show "report \<in> set (issued ?c') \<and> moved fs (location ?c') (location_of report)"
    if "goroutines ?c' j = Updating report fs" for j report fs
    using that D(4) [of j report fs] by (auto split: if_splits)
  show "report \<in> set (issued ?c')" if "goroutines ?c' j = UpdateWaiting report" for j report
    using that D(5) [of j report] by (auto split: if_splits)
  show "moved fs loc (location ?c')" if "goroutines ?c' j = Reading loc fs" for j loc fs
    using that D(6) [of j loc fs] moved_all_fields by (auto split: if_splits)
  show "from_one_update (issued ?c') loc" if "loc \<in> set (snapshots ?c')" for loc
    using that D(7) [of loc] by simp
qed

lemma reader_sees_one_update:
  assumes inv: "lock_invariant c" and g: "goroutines c i = Reading l fs"
  shows "from_one_update (issued c) (location c)"
proof (rule lock_invariantD(3) [OF inv])
  fix j
  have h: "holds_lock (goroutines c i)" using g by simp
  show "\<not> is_updating (goroutines c j)"
    using sole_holder(2) [OF inv h, of j] g by (cases "j = i") simp_all
qed

lemma load_invariant:
  assumes inv: "lock_invariant c" and g: "goroutines c i = Reading l (f # fs)"
  shows "lock_invariant
      (c\<lparr>goroutines := (goroutines c)(i := Reading (copy_field f (location c) l) fs)\<rparr>)"
    (is "lock_invariant ?c'")
proof (rule lock_invariantI)
  note D = lock_invariantD [OF inv]
  have h: "holds_lock (goroutines c i)" using g by simp
  note S = sole_holder [OF inv h]
  show "holds_lock (goroutines ?c' j) \<Longrightarrow> locked ?c'" for j
    using D(1) [OF h] by simp
  show "holds_lock (goroutines ?c' j) \<Longrightarrow> holds_lock (goroutines ?c' k) \<Longrightarrow> j = k" for j k
    using S(1) by (auto split: if_splits)
  show "from_one_update (issued ?c') (location ?c')"
    using reader_sees_one_update [OF inv g] by simp
  show "report \<in> set (issued ?c') \<and> moved fs' (location ?c') (location_of report)"
    if "goroutines ?c' j = Updating report fs'" for j report fs'
    using that D(4) [of j report fs'] by (auto split: if_splits)
  show "report \<in> set (issued ?c')" if "goroutines ?c' j = UpdateWaiting report" for j report
    using that D(5) [of j report] by (auto split: if_splits)
  show "moved fs' loc (location ?c')" if "goroutines ?c' j = Reading loc fs'" for j loc fs'
  proof (cases "j = i")
    case True
    with that have "loc = copy_field f (location c) l" "fs' = fs" by simp_all
    moreover from D(6) [OF g] have "moved (f # fs) l (location c)" .
    ultimately show ?thesis by (simp add: moved_load)
  next
    case False
    with that have "holds_lock (goroutines c j)" by simp
    with S(1) [OF False] show ?thesis by simp
  qed
  show "from_one_update (issued ?c') loc" if "loc \<in> set (snapshots ?c')" for loc
    using that D(7) [of loc] by simp
qed

lemma release_read_invariant:
  assumes inv: "lock_invariant c" and g: "goroutines c i = Reading l []"
  shows "lock_invariant (c\<lparr>locked := False, goroutines := (goroutines c)(i := Idle),
      snapshots := snapshots c @ [l]\<rparr>)"
    (is "lock_invariant ?c'")
proof (rule lock_invariantI)
  note D = lock_invariantD [OF inv]
  have h: "holds_lock (goroutines c i)" using g by simp
  note S = sole_holder [OF inv h]
  have nobody: "\<not> holds_lock (goroutines ?c' j)" for j
    using S(1) [of j] by (cases "j = i") simp_all
  have seen: "from_one_update (issued c) (location c)"
    using reader_sees_one_update [OF inv g] .
  have copy: "l = location c"
    using D(6) [OF g] by (rule moved_Nil)
  show "holds_lock (goroutines ?c' j) \<Longrightarrow> locked ?c'" for j
    using nobody by blast
  show "holds_lock (goroutines ?c' j) \<Longrightarrow> holds_lock (goroutines ?c' k) \<Longrightarrow> j = k" for j k
    using nobody by blast
  show "from_one_update (issued ?c') (location ?c')"
    using seen by simp
  show "report \<in> set (issued ?c') \<and> moved fs (location ?c') (location_of report)"
    if "goroutines ?c' j = Updating report fs" for j report fs
    using that nobody [of j] by simp
  show "report \<in> set (issued ?c')" if "goroutines ?c' j = UpdateWaiting report" for j report
    using that D(5) [of j report] by (auto split: if_splits)
  show "moved fs loc (location ?c')" if "goroutines ?c' j = Reading loc fs" for j loc fs
    using that nobody [of j] by simp
  show "from_one_update (issued ?c') loc" if "loc \<in> set (snapshots ?c')" for loc
    using that D(7) [of loc] seen copy by auto
qed

lemma perform_Advance_invariant:
  assumes inv: "lock_invariant c"
  shows "lock_invariant (perform (Advance i) c)"
proof (cases "goroutines c i")
  case Idle
  then show ?thesis using inv by simp
next
  case (UpdateWaiting r)
  then show ?thesis using inv acquire_update_invariant [OF inv UpdateWaiting] by simp
next
  case (Updating r fs)
  then show ?thesis
    using release_update_invariant [OF inv, of i r] store_invariant [OF inv, of i r]
    by (cases fs) simp_all
next
  case (ReadWaiting l)
  then show ?thesis using inv acquire_read_invariant [OF inv ReadWaiting] by simp
next
  case (Reading l fs)
  then show ?thesis
    using release_read_invariant [OF inv, of i l] load_invariant [OF inv, of i l]
    by (cases fs) simp_all
qed

lemma perform_invariant: "lock_invariant c \<Longrightarrow> lock_invariant (perform a c)"
  by (cases a)
    (simp_all only: perform_StartUpdate_invariant perform_StartRead_invariant
      perform_Advance_invariant)

lemma schedule_invariant: "lock_invariant c \<Longrightarrow> lock_invariant (schedule as c)"
  by (induction as arbitrary: c) (simp_all add: perform_invariant)

text \<open>
  C8. Under every interleaving of updates and reads by any number of goroutines, each
  snapshot a reader has copied out of \<^verbatim>\<open>currentLocation\<close> is the value of one single
  update (the five fields \<open>location_of r\<close> of one report \<open>r\<close> whose update has begun) or,
  before any update, the initial zero value; fields of two different updates are never
  mixed in it.
\<close>

theorem snapshot_is_one_update:
  "\<forall>loc \<in> set (snapshots (schedule as start_state)).
     loc = zero_location \<or> (\<exists>r \<in> set (issued (schedule as start_state)). loc = location_of r)"
proof
  fix loc
  assume "loc \<in> set (snapshots (schedule as start_state))"
  moreover have "lock_invariant (schedule as start_state)"
    using lock_invariant_start by (rule schedule_invariant)
  ultimately have "from_one_update (issued (schedule as start_state)) loc"
    by (rule lock_invariantD(7) [rotated])
  then show "loc = zero_location \<or> (\<exists>r \<in> set (issued (schedule as start_state)). loc = location_of r)"
    by (auto simp: from_one_update_def)
qed

theorem snapshot_is_one_update_witness:
  "snapshots (schedule scenario_schedule start_state) = [location_of scenario_report]
   \<and> location (schedule scenario_schedule start_state) =
       (location_of scenario_report)\<lparr>Fix := False\<rparr>
   \<and> (location_of scenario_report = zero_location \<or>
        (\<exists>r \<in> set (issued (schedule scenario_schedule start_state)).
           location_of scenario_report = location_of r))"
proof -
  have snap: "snapshots (schedule scenario_schedule start_state) = [location_of scenario_report]"
    by (simp add: scenario_schedule_def start_state_def all_fields_def location_of_def
        scenario_report_def zero_location_def word_le_nat_alt)
  have loc: "location (schedule scenario_schedule start_state) =
      (location_of scenario_report)\<lparr>Fix := False\<rparr>"
    by (simp add: scenario_schedule_def start_state_def all_fields_def location_of_def
        scenario_report_def zero_location_def word_le_nat_alt)
  have "location_of scenario_report \<in> set (snapshots (schedule scenario_schedule start_state))"
    unfolding snap by simp
  with snapshot_is_one_update [of scenario_schedule]
  have "location_of scenario_report = zero_location \<or>
        (\<exists>r \<in> set (issued (schedule scenario_schedule start_state)).
           location_of scenario_report = location_of r)"
    by blast
  with snap loc show ?thesis by blast
qed

end
